theory Spec2Isabelle
  imports Complex_Main "HOL-Library.Word" "HOL-Library.Product_Lexorder" "HOL-Library.Log_Nat"
begin

unbundle bit_operations_syntax

section \<open>Numbers and helpers (helpers.js)\<close>

text \<open>
  Where the source counts (characters, events, grid sizes, array indices) its numbers are
  \<open>nat\<close> or \<open>int\<close>.  The severity of an event and the parameters derived from it (hatch
  spacing, weight and alpha, border weight, erase ratio, number of boundary points) go
  through \<open>Math.log1p\<close>, \<open>Math.sqrt\<close> and decimal constants of the configuration; they
  are exact reals, with \<open>Math.log1p x = ln (1 + x)\<close> and \<open>Math.round x = \<lfloor>x + 1/2\<rfloor>\<close>, which
  is HOL's \<open>round\<close>.  The geometry (coordinates, clip parameters, sample steps, the random
  stream) is computed in JavaScript's floating-point arithmetic, section
  \<open>JavaScript arithmetic\<close> below.
\<close>

definition clamp :: "'a::linorder \<Rightarrow> 'a \<Rightarrow> 'a \<Rightarrow> 'a" where
  "clamp v lo hi = max lo (min hi v)"

definition lerp :: "real \<Rightarrow> real \<Rightarrow> real \<Rightarrow> real" where
  "lerp a b t = a + (b - a) * t"

definition log1p :: "real \<Rightarrow> real" where
  "log1p x = ln (1 + x)"

text \<open>
  \<open>hashString\<close>: \<open>hash = ((hash << 5) - hash) + char; hash = hash & hash\<close> keeps a signed
  32-bit accumulator; the result is its absolute value.  The characters of an event kind
  are taken to be ASCII, where \<open>charCodeAt\<close> is the character's code.
\<close>

definition hashStep :: "32 word \<Rightarrow> char \<Rightarrow> 32 word" where
  "hashStep hash c = (push_bit 5 hash - hash) + of_nat (of_char c)"

definition hashString :: "string \<Rightarrow> int" where
  "hashString str = \<bar>sint (foldl hashStep 0 str)\<bar>"

section \<open>JavaScript arithmetic\<close>

text \<open>
  A JavaScript number is an IEEE 754 binary64 value, and \<open>+\<close>, \<open>-\<close>, \<open>*\<close>, \<open>/\<close> and
  \<open>Math.sqrt\<close> return the exact result rounded to the nearest such value, ties to the
  even significand.  A number is modelled as the real it denotes; \<open>fl\<close> is the rounding
  to 53 significant bits.  The range of the exponent is not bounded here: overflow to
  \<open>Infinity\<close> (beyond \<open>1.8e308\<close>) and gradual underflow (below \<open>2.3e-308\<close>) are left out,
  and so are \<open>NaN\<close> and the sign of zero; where the source divides by zero, the model
  has a branch of its own.

  \<open>expo x\<close> is the binary exponent of \<open>x \<noteq> 0\<close>, the \<open>e\<close> with \<open>2^e \<le> |x| < 2^(e+1)\<close>; \<open>rne\<close>
  rounds to the nearest integer, ties to even.
\<close>

definition expo :: "real \<Rightarrow> int" where
  "expo x = (if 1 \<le> \<bar>x\<bar> then bitlen \<lfloor>\<bar>x\<bar>\<rfloor> - 1 else - bitlen (\<lceil>1 / \<bar>x\<bar>\<rceil> - 1))"

definition rne :: "real \<Rightarrow> int" where
  "rne m =
     (let f = \<lfloor>m\<rfloor>; d = m - of_int f
      in if d < 1 / 2 then f else if 1 / 2 < d then f + 1 else if even f then f else f + 1)"

definition fl :: "real \<Rightarrow> real" where
  "fl x = (if x = 0 then 0
           else (let e = expo x - 52 in of_int (rne (x / 2 powi e)) * 2 powi e))"

definition dadd :: "real \<Rightarrow> real \<Rightarrow> real" where
  "dadd a b = fl (a + b)"

definition dsub :: "real \<Rightarrow> real \<Rightarrow> real" where
  "dsub a b = fl (a - b)"

definition dmul :: "real \<Rightarrow> real \<Rightarrow> real" where
  "dmul a b = fl (a * b)"

definition ddiv :: "real \<Rightarrow> real \<Rightarrow> real" where
  "ddiv a b = fl (a / b)"

definition dsqrt :: "real \<Rightarrow> real" where
  "dsqrt a = fl (sqrt a)"

text \<open>\<open>Math.PI\<close>, the number nearest to \<open>\<pi>\<close>: \<open>884279719003555 / 2^48\<close>.\<close>

definition MATH_PI :: real where
  "MATH_PI = 884279719003555 / 281474976710656"

text \<open>
  \<open>Math.cos\<close> and \<open>Math.sin\<close> return an approximation that the language leaves to
  the implementation (\<open>Math.cos(Math.PI / 2)\<close> is \<open>6.123e-17\<close>, not 0, in the common
  ones).  They are parameters of the functions that call them.
\<close>

record host =
  math_cos :: "real \<Rightarrow> real"
  math_sin :: "real \<Rightarrow> real"

section \<open>Configuration (config.js)\<close>

record angles =
  edit_human :: real
  edit_ai :: real
  snapshot :: real
  mode_change :: real
  policy_violation :: "real list"
  default :: "real list"

record hatching =
  angles :: angles
  spacingMin :: real
  spacingMax :: real
  spacingClampMin :: real
  spacingClampMax :: real
  weightMin :: real
  weightMax :: real
  policyViolationWeightBonus :: real
  alphaMin :: real
  alphaMax :: real
  cellBorderWeight :: real
  cellBorderAlpha :: real

record motifs =
  radialLinesMaxCount :: int
  radialLinesMinLength :: real
  radialLinesMaxLength :: real
  undoLineAlpha :: real
  pasteLineWeightMultiplier :: real

record config =
  preset :: string
  marginRatio :: real
  maxEvents :: nat
  sampling :: string
  order :: string
  minGridSize :: int
  maxGridSize :: int
  hatching :: hatching
  motifs :: motifs
  seed :: int

text \<open>
  The default configuration.  \<open>marginRatio\<close> enters the floating-point geometry and is
  the number that the literal \<open>0.05\<close> denotes; the decimal constants of \<open>hatching\<close> and
  \<open>motifs\<close> enter the parameter derivation and are exact.
\<close>

definition LEWITT_CONFIG :: config where
  "LEWITT_CONFIG = \<lparr>
     preset = ''lewitt_grid_hatch_p5'',
     marginRatio = fl (5 / 100),
     maxEvents = 530,
     sampling = ''uniform'',
     order = ''time'',
     minGridSize = 5,
     maxGridSize = 27,
     hatching = \<lparr>
       angles = \<lparr> edit_human = 45, edit_ai = 135, snapshot = 0, mode_change = 90,
                  policy_violation = [45, 135], default = [0, 45, 90, 135] \<rparr>,
       spacingMin = 4, spacingMax = 18, spacingClampMin = 3, spacingClampMax = 24,
       weightMin = 6 / 10, weightMax = 3, policyViolationWeightBonus = 1,
       alphaMin = 40, alphaMax = 200,
       cellBorderWeight = 5 / 10, cellBorderAlpha = 25 \<rparr>,
     motifs = \<lparr>
       radialLinesMaxCount = 12, radialLinesMinLength = 5 / 100,
       radialLinesMaxLength = 35 / 100, undoLineAlpha = 80,
       pasteLineWeightMultiplier = 25 / 10 \<rparr>,
     seed = 0 \<rparr>"

section \<open>Grid size and hatch parameters (lewitt.js)\<close>

definition calculateGridSize :: "nat \<Rightarrow> config \<Rightarrow> int" where
  "calculateGridSize eventCount cfg =
     (let k = min eventCount (maxEvents cfg);
          n = round (sqrt (real k))
      in clamp n (minGridSize cfg) (maxGridSize cfg))"

record hatch_params =
  spacing :: real
  weight :: real
  alpha :: int

definition getHatchParams :: "real \<Rightarrow> hatch_params" where
  "getHatchParams severity =
     (let h = hatching LEWITT_CONFIG in
      \<lparr> spacing = clamp (lerp (spacingMax h) (spacingMin h) severity)
                       (spacingClampMin h) (spacingClampMax h),
        weight = lerp (weightMin h) (weightMax h) severity,
        alpha = round (lerp (alphaMin h) (alphaMax h) severity) \<rparr>)"

text \<open>The stroke weight of a policy-violation cell (\<open>drawPolicyViolationCell\<close>).\<close>

definition policyViolationWeight :: "real \<Rightarrow> real" where
  "policyViolationWeight severity =
     weight (getHatchParams severity) + policyViolationWeightBonus (hatching LEWITT_CONFIG)"

section \<open>Events: raw records, the normalizer and the severity (helpers.js)\<close>

record raw_file =
  raw_path :: "string option"
  raw_lang :: "string option"

record raw_delta =
  raw_added_chars :: "nat option"
  raw_deleted_chars :: "nat option"
  raw_added_lines :: "nat option"
  raw_deleted_lines :: "nat option"

record raw_flags =
  raw_is_paste_like :: "bool option"
  raw_is_undo_like :: "bool option"
  raw_is_redo_like :: "bool option"

text \<open>
  One parsed log line.  \<open>raw_prompt\<close> and \<open>raw_to\<close> are the event-kind-specific fields
  of an \<open>ai_prompt\<close> and of a \<open>mode_change\<close> record.
\<close>

record raw_event =
  raw_ts :: "int option"
  raw_elapsed_ms :: "int option"
  raw_event :: string
  raw_origin_mode :: "string option"
  raw_kind :: "string option"
  raw_file :: "raw_file option"
  raw_delta :: "raw_delta option"
  raw_flags :: "raw_flags option"
  raw_detail :: "string option"
  raw_session_id :: "string option"
  raw_workspace_id :: "string option"
  raw_prompt :: "string option"
  raw_to :: "string option"

record delta =
  added_chars :: nat
  deleted_chars :: nat
  added_lines :: nat
  deleted_lines :: nat

record flags =
  is_paste_like :: bool
  is_undo_like :: bool
  is_redo_like :: bool

text \<open>
  The object that \<open>normalizeEvent\<close> builds: these thirteen keys and no other.
\<close>

record nevent =
  ts :: "int option"
  elapsed_ms :: "int option"
  event :: string
  origin_mode :: "string option"
  kind :: "string option"
  file_path :: "string option"
  lang :: "string option"
  delta :: "delta option"
  flags :: "flags option"
  detail :: "string option"
  session_id :: "string option"
  workspace_id :: "string option"
  raw :: "raw_event option"

text \<open>
  An event object as the renderer reads it: the normalizer's keys, the \<open>severity\<close> that
  \<open>parseJsonl\<close> assigns, the properties \<open>prompt\<close> and \<open>to\<close> that \<open>prepareEvents\<close> reads
  (\<open>None\<close> where the object has no such key), and the properties \<open>hasSnapshotAfter\<close> and
  \<open>aiPromptLength\<close> that \<open>prepareEvents\<close> assigns (\<open>None\<close> until assigned).
\<close>

record event = nevent +
  severity :: real
  prompt :: "string option"
  to :: "string option"
  hasSnapshotAfter :: "bool option"
  aiPromptLength :: "nat option"

text \<open>\<open>x || 0\<close> and \<open>x || false\<close> on an optional count and an optional boolean.\<close>

definition orZero :: "nat option \<Rightarrow> nat" where
  "orZero x = (case x of None \<Rightarrow> 0 | Some n \<Rightarrow> n)"

definition orFalse :: "bool option \<Rightarrow> bool" where
  "orFalse x = (case x of None \<Rightarrow> False | Some b \<Rightarrow> b)"

text \<open>
  \<open>(event.flags || {}).f\<close> as a condition, and \<open>(event.delta || {}).f || 0\<close>.
\<close>

definition flagOf :: "(flags \<Rightarrow> bool) \<Rightarrow> flags option \<Rightarrow> bool" where
  "flagOf f fs = (case fs of None \<Rightarrow> False | Some x \<Rightarrow> f x)"

definition charsOf :: "(delta \<Rightarrow> nat) \<Rightarrow> delta option \<Rightarrow> nat" where
  "charsOf f dl = (case dl of None \<Rightarrow> 0 | Some d \<Rightarrow> f d)"

definition calculateSeverity :: "'a nevent_scheme \<Rightarrow> real" where
  "calculateSeverity e =
     (if event e = ''policy_violation'' then 1
      else if event e = ''edit'' then
        (if flagOf is_undo_like (flags e) then 15 / 100
         else if flagOf is_redo_like (flags e) then 25 / 100
         else if flagOf is_paste_like (flags e) then 85 / 100
         else
           (let chars = charsOf added_chars (delta e) + charsOf deleted_chars (delta e);
                REF = 30000;
                normalized = log1p (real chars) / log1p REF;
                sev = clamp (sqrt normalized) 0 1
            in max (1 / 10) sev))
      else if event e = ''snapshot'' then 2 / 10
      else if event e = ''session_start'' then 4 / 10
      else if event e = ''session_pause'' then 3 / 10
      else if event e = ''session_resume'' then 35 / 100
      else if event e = ''mode_change'' then 3 / 10
      else 5 / 10)"

definition normalizeDelta :: "raw_delta \<Rightarrow> delta" where
  "normalizeDelta d = \<lparr>
     added_chars = orZero (raw_added_chars d),
     deleted_chars = orZero (raw_deleted_chars d),
     added_lines = orZero (raw_added_lines d),
     deleted_lines = orZero (raw_deleted_lines d) \<rparr>"

definition normalizeFlags :: "raw_flags \<Rightarrow> flags" where
  "normalizeFlags f = \<lparr>
     is_paste_like = orFalse (raw_is_paste_like f),
     is_undo_like = orFalse (raw_is_undo_like f),
     is_redo_like = orFalse (raw_is_redo_like f) \<rparr>"

definition normalizeEvent :: "raw_event \<Rightarrow> nevent" where
  "normalizeEvent r = \<lparr>
     ts = raw_ts r,
     elapsed_ms = raw_elapsed_ms r,
     event = raw_event r,
     origin_mode = raw_origin_mode r,
     kind = raw_kind r,
     file_path = (case raw_file r of None \<Rightarrow> None | Some fi \<Rightarrow> raw_path fi),
     lang = (case raw_file r of None \<Rightarrow> None | Some fi \<Rightarrow> raw_lang fi),
     delta = map_option normalizeDelta (raw_delta r),
     flags = map_option normalizeFlags (raw_flags r),
     detail = raw_detail r,
     session_id = raw_session_id r,
     workspace_id = raw_workspace_id r,
     raw = Some r \<rparr>"

text \<open>
  The body of the loop of \<open>parseJsonl\<close> on one parsed line: \<open>normalizeEvent\<close>, then
  \<open>normalized.severity = calculateSeverity(normalized)\<close>.  The resulting object has no
  key \<open>prompt\<close>, \<open>to\<close>, \<open>hasSnapshotAfter\<close> or \<open>aiPromptLength\<close>.
\<close>

definition parseLine :: "raw_event \<Rightarrow> event" where
  "parseLine r =
     (let normalized = normalizeEvent r in
      \<lparr> ts = ts normalized,
        elapsed_ms = elapsed_ms normalized,
        event = event normalized,
        origin_mode = origin_mode normalized,
        kind = kind normalized,
        file_path = file_path normalized,
        lang = lang normalized,
        delta = delta normalized,
        flags = flags normalized,
        detail = detail normalized,
        session_id = session_id normalized,
        workspace_id = workspace_id normalized,
        raw = raw normalized,
        severity = calculateSeverity normalized,
        prompt = None,
        to = None,
        hasSnapshotAfter = None,
        aiPromptLength = None \<rparr>)"

text \<open>
  \<open>parseJsonl\<close> on the lines that \<open>JSON.parse\<close> accepts, in order (a line that does
  not parse only adds a warning).
\<close>

definition parseJsonl :: "raw_event list \<Rightarrow> event list" where
  "parseJsonl lines = map parseLine lines"

section \<open>The drawing surface\<close>

text \<open>
  The calls that the engine makes on the p5 graphics object \<open>g\<close>, recorded in order.
  \<open>Stroke\<close> and \<open>Fill\<close> are the two-argument (gray, alpha) forms, \<open>FillRGBA\<close> the
  four-argument form.
\<close>

datatype cmd =
    StrokeCapSquare
  | Stroke real real
  | StrokeWeight real
  | NoStroke
  | Fill real real
  | FillRGBA real real real real
  | NoFill
  | Rect real real real real
  | Line real real real real
  | Ellipse real real real real

section \<open>Geometric primitives (lewitt.js)\<close>

text \<open>
  The loop of \<open>clipLineToRect\<close> over \<open>i = 0..3\<close>, on the list of the pairs
  \<open>(p[i], q[i])\<close>; \<open>None\<close> is the early \<open>return null\<close>.
\<close>

fun clipLoop :: "(real \<times> real) list \<Rightarrow> real \<Rightarrow> real \<Rightarrow> (real \<times> real) option" where
  "clipLoop [] t0 t1 = Some (t0, t1)"
| "clipLoop ((p, q) # rest) t0 t1 =
     (if p = 0 then
        (if q < 0 then None else clipLoop rest t0 t1)
      else
        (let t = ddiv q p in
         if p < 0 then
           (if t > t1 then None
            else clipLoop rest (if t > t0 then t else t0) t1)
         else
           (if t < t0 then None
            else clipLoop rest t0 (if t < t1 then t else t1))))"

definition clipLineToRect ::
  "real \<Rightarrow> real \<Rightarrow> real \<Rightarrow> real \<Rightarrow> real \<Rightarrow> real \<Rightarrow> real \<Rightarrow> real
     \<Rightarrow> (real \<times> real \<times> real \<times> real) option" where
  "clipLineToRect x1 y1 x2 y2 rx ry rw rh =
     (let dx = dsub x2 x1;
          dy = dsub y2 y1;
          p = [- dx, dx, - dy, dy];
          q = [dsub x1 rx, dsub (dadd rx rw) x1, dsub y1 ry, dsub (dadd ry rh) y1]
      in case clipLoop (zip p q) 0 1 of
           None \<Rightarrow> None
         | Some (t0, t1) \<Rightarrow>
             Some (dadd x1 (dmul t0 dx), dadd y1 (dmul t0 dy),
                   dadd x1 (dmul t1 dx), dadd y1 (dmul t1 dy)))"

text \<open>
  The test \<open>p1Inside\<close> (and \<open>p2Inside\<close>) of \<open>drawLineWithRectHole\<close>, against the corner
  \<open>(rx, ry)\<close> and the computed opposite corner \<open>(rx + rw, ry + rh)\<close>.
\<close>

definition insideRect :: "real \<Rightarrow> real \<Rightarrow> real \<Rightarrow> real \<Rightarrow> real \<Rightarrow> real \<Rightarrow> bool" where
  "insideRect px py rx ry rw rh \<longleftrightarrow>
     px \<ge> rx \<and> px \<le> dadd rx rw \<and> py \<ge> ry \<and> py \<le> dadd ry rh"

record rect =
  rect_x :: real
  rect_y :: real
  rect_w :: real
  rect_h :: real

text \<open>An entry \<open>{ t, x, y }\<close> of the array \<open>intersections\<close>.\<close>

record hit =
  hit_t :: real
  hit_x :: real
  hit_y :: real

text \<open>
  The test of \<open>drawLineWithRectHole\<close> against a vertical edge \<open>x = ex\<close> (written out for
  the left and for the right edge in the source) and against a horizontal edge
  \<open>y = ey\<close> (top and bottom; the unused local \<open>t\<close> of the top-edge block is not
  modelled).
\<close>

definition vEdgeHit :: "real \<Rightarrow> real \<Rightarrow> real \<Rightarrow> real \<Rightarrow> real \<Rightarrow> real \<Rightarrow> real \<Rightarrow> hit list" where
  "vEdgeHit x1 y1 dx dy ex ry ry2 =
     (if dx \<noteq> 0 then
        (let t = ddiv (dsub ex x1) dx in
         if t \<ge> 0 \<and> t \<le> 1 then
           (let y = dadd y1 (dmul t dy) in
            if y \<ge> ry \<and> y \<le> ry2 then [\<lparr> hit_t = t, hit_x = ex, hit_y = y \<rparr>] else [])
         else [])
      else [])"

definition hEdgeHit :: "real \<Rightarrow> real \<Rightarrow> real \<Rightarrow> real \<Rightarrow> real \<Rightarrow> real \<Rightarrow> real \<Rightarrow> hit list" where
  "hEdgeHit x1 y1 dx dy ey rx rx2 =
     (if dy \<noteq> 0 then
        (let tFixed = ddiv (dsub ey y1) dy in
         if tFixed \<ge> 0 \<and> tFixed \<le> 1 then
           (let x = dadd x1 (dmul tFixed dx) in
            if x \<ge> rx \<and> x \<le> rx2 then [\<lparr> hit_t = tFixed, hit_x = x, hit_y = ey \<rparr>] else [])
         else [])
      else [])"

definition holeIntersections :: "real \<Rightarrow> real \<Rightarrow> real \<Rightarrow> real \<Rightarrow> rect \<Rightarrow> hit list" where
  "holeIntersections x1 y1 x2 y2 r =
     (let rx = rect_x r; ry = rect_y r;
          rx2 = dadd rx (rect_w r); ry2 = dadd ry (rect_h r);
          dx = dsub x2 x1; dy = dsub y2 y1
      in vEdgeHit x1 y1 dx dy rx ry ry2 @ vEdgeHit x1 y1 dx dy rx2 ry ry2
         @ hEdgeHit x1 y1 dx dy ry rx rx2 @ hEdgeHit x1 y1 dx dy ry2 rx rx2)"

text \<open>
  The duplicate-removal loop: \<open>unique\<close> starts as \<open>[intersections[0]]\<close> and an entry is
  pushed when its \<open>t\<close> is more than 0.0001 away from the last entry kept.  The literals
  \<open>0.0001\<close>, \<open>0.001\<close> and \<open>0.999\<close> denote the nearest numbers.
\<close>

fun dedupHits :: "hit list \<Rightarrow> hit list \<Rightarrow> hit list" where
  "dedupHits unique [] = unique"
| "dedupHits unique (h # hs) =
     (if \<bar>dsub (hit_t h) (hit_t (last unique))\<bar> > fl (1 / 10000)
      then dedupHits (unique @ [h]) hs
      else dedupHits unique hs)"

definition uniqueHits :: "hit list \<Rightarrow> hit list" where
  "uniqueHits intersections =
     (case sort_key hit_t intersections of
        [] \<Rightarrow> []
      | first # others \<Rightarrow> dedupHits [first] others)"

definition drawLineWithRectHole :: "real \<Rightarrow> real \<Rightarrow> real \<Rightarrow> real \<Rightarrow> rect \<Rightarrow> cmd list" where
  "drawLineWithRectHole x1 y1 x2 y2 r =
     (let p1Inside = insideRect x1 y1 (rect_x r) (rect_y r) (rect_w r) (rect_h r);
          p2Inside = insideRect x2 y2 (rect_x r) (rect_y r) (rect_w r) (rect_h r)
      in if p1Inside \<and> p2Inside then []
         else
           (let intersections = holeIntersections x1 y1 x2 y2 r in
            if length intersections = 0 then [Line x1 y1 x2 y2]
            else
              (let unique = uniqueHits intersections in
               if length unique \<ge> 2 then
                 (let enter = hd unique; exit = last unique in
                  (if \<not> p1Inside \<and> hit_t enter > fl (1 / 1000)
                   then [Line x1 y1 (hit_x enter) (hit_y enter)] else [])
                  @ (if \<not> p2Inside \<and> hit_t exit < fl (999 / 1000)
                     then [Line (hit_x exit) (hit_y exit) x2 y2] else []))
               else if length unique = 1 then
                 (let touch = hd unique in
                  if p1Inside then [Line (hit_x touch) (hit_y touch) x2 y2]
                  else [Line x1 y1 (hit_x touch) (hit_y touch)])
               else [])))"

section \<open>Seeded random stream (lewitt.js)\<close>

text \<open>
  \<open>SeededRandom\<close> (Mulberry32).  The field \<open>this.seed\<close> is a JavaScript number with an
  integer value, which \<open>next\<close> increases by \<open>0x6D2B79F5\<close> without truncation: the sum is
  rounded as every sum is, which shows from \<open>2^53\<close> on (the rounded sum of two integers is
  an integer, so that \<open>\<lfloor>_\<rfloor>\<close> only changes the type).  \<open>^\<close>, \<open>|\<close>, \<open>>>>\<close> and \<open>Math.imul\<close>
  work on the low 32 bits.  The quotient by \<open>2^32\<close> is exact.  Each operation takes the
  seed and returns the new one.
\<close>

definition rngNext :: "int \<Rightarrow> real \<times> int" where
  "rngNext seed0 =
     (let seed1 = \<lfloor>dadd (real_of_int seed0) 0x6D2B79F5\<rfloor>;
          t0 = (word_of_int seed1 :: 32 word);
          t1 = (t0 XOR drop_bit 15 t0) * (t0 OR 1);
          t2 = t1 XOR (t1 + (t1 XOR drop_bit 7 t1) * (t1 OR 61))
      in (real (unat (t2 XOR drop_bit 14 t2)) / 4294967296, seed1))"

definition rngRange :: "real \<Rightarrow> real \<Rightarrow> int \<Rightarrow> real \<times> int" where
  "rngRange lo hi seed0 = (let (u, seed1) = rngNext seed0 in (dadd lo (dmul u (dsub hi lo)), seed1))"

definition rngInt :: "real \<Rightarrow> real \<Rightarrow> int \<Rightarrow> int \<times> int" where
  "rngInt lo hi seed0 = (let (v, seed1) = rngRange lo (dadd hi 1) seed0 in (\<lfloor>v\<rfloor>, seed1))"

section \<open>Cell renderer (lewitt.js)\<close>

text \<open>
  What stops a call before it returns: the \<open>TypeError\<close> of reading a property of
  \<open>null\<close>, and a loop that never ends.  A drawing function returns the calls it made on
  the surface up to that point together with either the reason or its result.
\<close>

datatype error = TypeError | NoReturn

record point =
  pt_x :: real
  pt_y :: real

datatype hatch_angle = Single real | Cross "real list"

definition getHatchAngle :: "event \<Rightarrow> hatch_angle" where
  "getHatchAngle e =
     (let a = angles (hatching LEWITT_CONFIG) in
      if event e = ''edit'' \<and> origin_mode e = Some ''human'' then Single (edit_human a)
      else if event e = ''edit'' \<and> origin_mode e = Some ''ai'' then Single (edit_ai a)
      else if event e = ''snapshot'' then Single (snapshot a)
      else if event e = ''mode_change'' then Single (mode_change a)
      else if event e = ''policy_violation'' then Cross (policy_violation a)
      else
        (let hash = hashString (event e) in
         Single (default a ! nat (hash mod int (length (default a))))))"

text \<open>
  One iteration of the loop of \<open>drawHatchLines\<close>, for the line number \<open>i\<close>.
\<close>

definition hatchLine ::
  "real \<Rightarrow> real \<Rightarrow> real \<Rightarrow> real \<Rightarrow> real \<Rightarrow> real \<Rightarrow> real \<Rightarrow> real \<Rightarrow> real \<Rightarrow> real
     \<Rightarrow> rect option \<Rightarrow> int \<Rightarrow> cmd list" where
  "hatchLine cellX cellY cellW cellH cs sn scaledSpacing diag centerX centerY eraseRect i =
     (let offsetX = dmul (dmul (- sn) (real_of_int i)) scaledSpacing;
          offsetY = dmul (dmul cs (real_of_int i)) scaledSpacing;
          x1 = dsub (dadd centerX offsetX) (dmul cs diag);
          y1 = dsub (dadd centerY offsetY) (dmul sn diag);
          x2 = dadd (dadd centerX offsetX) (dmul cs diag);
          y2 = dadd (dadd centerY offsetY) (dmul sn diag)
      in case clipLineToRect x1 y1 x2 y2 cellX cellY cellW cellH of
           None \<Rightarrow> []
         | Some (c0, c1, c2, c3) \<Rightarrow>
             (case eraseRect of
                Some r \<Rightarrow> drawLineWithRectHole c0 c1 c2 c3 r
              | None \<Rightarrow> [Line c0 c1 c2 c3]))"

text \<open>
  \<open>drawHatchLines\<close>.  With \<open>scaledSpacing = 0\<close> the quotient \<open>diag / scaledSpacing\<close> is
  not a finite number: for \<open>diag = 0\<close> it is \<open>NaN\<close> and the loop body never runs, for
  \<open>diag > 0\<close> it is \<open>Infinity\<close> and the loop never ends.  The loop counter \<open>i\<close> is an
  integer (exact below \<open>2^53\<close>).  The parameters \<open>spc\<close>, \<open>wt\<close> and \<open>al\<close> are the
  source's \<open>spacing\<close>, \<open>weight\<close> and \<open>alpha\<close>.
\<close>

definition drawHatchLines ::
  "host \<Rightarrow> real \<Rightarrow> real \<Rightarrow> real \<Rightarrow> real \<Rightarrow> real \<Rightarrow> real \<Rightarrow> real \<Rightarrow> real \<Rightarrow> real \<Rightarrow> real
     \<Rightarrow> cmd list \<times> (error + unit)" where
  "drawHatchLines hst cellX cellY cellW cellH angleDeg spc wt al scale eraseRatio =
     (let angleRad = ddiv (dmul angleDeg MATH_PI) 180;
          cs = math_cos hst angleRad;
          sn = math_sin hst angleRad;
          scaledSpacing = dmul spc scale;
          scaledWeight = max (5 / 10) (dmul wt scale);
          setup = [Stroke 0 al, StrokeWeight scaledWeight];
          diag = dsqrt (dadd (dmul cellW cellW) (dmul cellH cellH));
          centerX = dadd cellX (ddiv cellW 2);
          centerY = dadd cellY (ddiv cellH 2);
          eraseW = dmul cellW eraseRatio;
          eraseH = dmul cellH eraseRatio;
          eraseRect = (if eraseRatio > 0
                       then Some \<lparr> rect_x = dsub centerX (ddiv eraseW 2),
                                   rect_y = dsub centerY (ddiv eraseH 2),
                                   rect_w = eraseW, rect_h = eraseH \<rparr>
                       else None)
      in if scaledSpacing = 0 then
           (if diag = 0 then (setup, Inr ()) else (setup, Inl NoReturn))
         else
           (let numLines = \<lceil>ddiv diag scaledSpacing\<rceil> + 2 in
            (setup @ concat (map (hatchLine cellX cellY cellW cellH cs sn scaledSpacing diag
                                    centerX centerY eraseRect) [- numLines..numLines]),
             Inr ())))"

definition getRayBoundaryIntersection ::
  "host \<Rightarrow> real \<Rightarrow> real \<Rightarrow> real \<Rightarrow> real \<Rightarrow> real \<Rightarrow> real \<Rightarrow> real \<Rightarrow> point option" where
  "getRayBoundaryIntersection hst centerX centerY angle cellX cellY cellW cellH =
     (let cs = math_cos hst angle;
          sn = math_sin hst angle;
          maxDist = dsqrt (dadd (dmul cellW cellW) (dmul cellH cellH));
          x2 = dadd centerX (dmul cs maxDist);
          y2 = dadd centerY (dmul sn maxDist)
      in case clipLineToRect centerX centerY x2 y2 cellX cellY cellW cellH of
           Some (c0, c1, c2, c3) \<Rightarrow> Some \<lparr> pt_x = c2, pt_y = c3 \<rparr>
         | None \<Rightarrow> None)"

text \<open>
  The loop shared by \<open>collectBoundaryPoints\<close> and \<open>drawPointSymmetricLines\<close>: \<open>count\<close>
  random rays from the centre; returns the points hit and the new seed.
\<close>

fun boundaryPointLoop ::
  "host \<Rightarrow> nat \<Rightarrow> real \<Rightarrow> real \<Rightarrow> real \<Rightarrow> real \<Rightarrow> real \<Rightarrow> real \<Rightarrow> int
     \<Rightarrow> point list \<times> int" where
  "boundaryPointLoop hst 0 centerX centerY cellX cellY cellW cellH rng = ([], rng)"
| "boundaryPointLoop hst (Suc k) centerX centerY cellX cellY cellW cellH rng =
     (let (angle, rng1) = rngRange 0 (dmul MATH_PI 2) rng;
          intersection =
            getRayBoundaryIntersection hst centerX centerY angle cellX cellY cellW cellH;
          (rest, rng2) = boundaryPointLoop hst k centerX centerY cellX cellY cellW cellH rng1
      in ((case intersection of Some p \<Rightarrow> [p] | None \<Rightarrow> []) @ rest, rng2))"

definition collectBoundaryPoints ::
  "host \<Rightarrow> real \<Rightarrow> real \<Rightarrow> real \<Rightarrow> real \<Rightarrow> int \<Rightarrow> int \<Rightarrow> point list \<times> int" where
  "collectBoundaryPoints hst cellX cellY cellW cellH count rng =
     (let centerX = dadd cellX (ddiv cellW 2);
          centerY = dadd cellY (ddiv cellH 2)
      in boundaryPointLoop hst (nat count) centerX centerY cellX cellY cellW cellH rng)"

definition symmetricLine ::
  "real \<Rightarrow> real \<Rightarrow> real \<Rightarrow> real \<Rightarrow> real \<Rightarrow> real \<Rightarrow> point \<Rightarrow> cmd list" where
  "symmetricLine cellX cellY cellW cellH centerX centerY p =
     (let symX = dsub (dmul 2 centerX) (pt_x p);
          symY = dsub (dmul 2 centerY) (pt_y p)
      in case clipLineToRect (pt_x p) (pt_y p) symX symY cellX cellY cellW cellH of
           Some (c0, c1, c2, c3) \<Rightarrow> [Line c0 c1 c2 c3]
         | None \<Rightarrow> [])"

definition drawPointSymmetricLines ::
  "host \<Rightarrow> real \<Rightarrow> real \<Rightarrow> real \<Rightarrow> real \<Rightarrow> int \<Rightarrow> int \<Rightarrow> real \<Rightarrow> cmd list \<times> int" where
  "drawPointSymmetricLines hst cellX cellY cellW cellH count rng scale =
     (let centerX = dadd cellX (ddiv cellW 2);
          centerY = dadd cellY (ddiv cellH 2);
          (points, rng1) =
            boundaryPointLoop hst (nat count) centerX centerY cellX cellY cellW cellH rng;
          pointSize = max 2 (dmul 4 scale)
      in ([Stroke 0 150, StrokeWeight (max (5 / 10) (dmul (fl (12 / 10)) scale))]
          @ concat (map (symmetricLine cellX cellY cellW cellH centerX centerY) points)
          @ [Fill 0 200, NoStroke]
          @ map (\<lambda>p. Ellipse (pt_x p) (pt_y p) pointSize pointSize) points,
          rng1))"

text \<open>
  The \<open>for (const angle of angles)\<close> loop of \<open>drawPolicyViolationCell\<close>.
\<close>

fun crossHatch ::
  "host \<Rightarrow> real list \<Rightarrow> real \<Rightarrow> real \<Rightarrow> real \<Rightarrow> real \<Rightarrow> real \<Rightarrow> real \<Rightarrow> real \<Rightarrow> real
     \<Rightarrow> cmd list \<times> (error + unit)" where
  "crossHatch hst [] cellX cellY cellW cellH spc wt al scale = ([], Inr ())"
| "crossHatch hst (angle # rest) cellX cellY cellW cellH spc wt al scale =
     (case drawHatchLines hst cellX cellY cellW cellH angle spc wt al scale 0 of
        (cmds, Inl err) \<Rightarrow> (cmds, Inl err)
      | (cmds, Inr _) \<Rightarrow>
          (case crossHatch hst rest cellX cellY cellW cellH spc wt al scale of
             (cmds', res) \<Rightarrow> (cmds @ cmds', res)))"

definition drawPolicyViolationCell ::
  "host \<Rightarrow> real \<Rightarrow> real \<Rightarrow> real \<Rightarrow> real \<Rightarrow> real \<Rightarrow> real \<Rightarrow> cmd list \<times> (error + unit)" where
  "drawPolicyViolationCell hst cellX cellY cellW cellH sev scale =
     (let params = getHatchParams sev;
          angs = policy_violation (angles (hatching LEWITT_CONFIG));
          fillCmds = [NoStroke, FillRGBA 255 0 0 20, Rect cellX cellY cellW cellH];
          wt = policyViolationWeight sev
      in case crossHatch hst angs cellX cellY cellW cellH (spacing params) wt
                (real_of_int (alpha params)) scale of
           (cmds, res) \<Rightarrow> (fillCmds @ cmds, res))"

text \<open>
  The call \<open>console.log(event.aiPromptLength)\<close> in \<open>drawCell\<close>: it makes no call on the
  drawing surface; reading the property throws when \<open>event\<close> is \<open>null\<close>.
\<close>

definition logAiPromptLength :: "event option \<Rightarrow> error + unit" where
  "logAiPromptLength ev = (case ev of None \<Rightarrow> Inl TypeError | Some e \<Rightarrow> Inr ())"

text \<open>\<open>event.aiPromptLength > 0\<close>, false when the property is absent.\<close>

definition aiPromptPositive :: "event \<Rightarrow> bool" where
  "aiPromptPositive e = (case aiPromptLength e of None \<Rightarrow> False | Some n \<Rightarrow> n > 0)"

text \<open>The border weight and alpha computed at the start of \<open>drawCell\<close>.\<close>

definition cellBorder :: "event option \<Rightarrow> real \<Rightarrow> real \<times> real" where
  "cellBorder ev scale =
     (let h = hatching LEWITT_CONFIG;
          borderWeight = max (5 / 10) (cellBorderWeight h * scale);
          borderAlpha = cellBorderAlpha h
      in case ev of
           None \<Rightarrow> (borderWeight, borderAlpha)
         | Some e \<Rightarrow>
             if aiPromptPositive e then
               (let promptRatio = clamp (log1p (real (the (aiPromptLength e))) / log1p 1000) 0 1
                in (max 2 (lerp 3 10 promptRatio * scale),
                    real_of_int (round (lerp 150 255 promptRatio))))
             else (borderWeight, borderAlpha))"

definition eraseRatioOf :: "event \<Rightarrow> real" where
  "eraseRatioOf e =
     (case delta e of
        None \<Rightarrow> 0
      | Some d \<Rightarrow>
          if deleted_chars d > 0
          then clamp (log1p (real (deleted_chars d)) / log1p 3000) 0 1 * (8 / 10)
          else 0)"

text \<open>The "additional motifs for edit events" block of \<open>drawCell\<close>.\<close>

definition editMotifs ::
  "host \<Rightarrow> event \<Rightarrow> real \<Rightarrow> real \<Rightarrow> real \<Rightarrow> real \<Rightarrow> int \<Rightarrow> real \<Rightarrow> bool
     \<Rightarrow> cmd list \<times> int \<times> point list" where
  "editMotifs hst e cellX cellY cellW cellH rng scale collectPoints =
     (if event e = ''edit'' then
        (case delta e of
           None \<Rightarrow> ([], rng, [])
         | Some d \<Rightarrow>
             (let totalChange = added_chars d + deleted_chars d in
              if totalChange > 0 then
                (let count = clamp (round (log1p (real totalChange) / (16 / 10))) 0
                               (radialLinesMaxCount (motifs LEWITT_CONFIG))
                 in if count > 0 then
                      (if collectPoints then
                         (let (points, rng1) =
                                collectBoundaryPoints hst cellX cellY cellW cellH count rng
                          in ([], rng1, points))
                       else
                         (let (cmds, rng1) =
                                drawPointSymmetricLines hst cellX cellY cellW cellH count rng scale
                          in (cmds, rng1, [])))
                    else ([], rng, []))
              else ([], rng, [])))
      else ([], rng, []))"

definition drawCell ::
  "host \<Rightarrow> event option \<Rightarrow> real \<Rightarrow> real \<Rightarrow> real \<Rightarrow> real \<Rightarrow> int \<Rightarrow> real \<Rightarrow> bool
     \<Rightarrow> cmd list \<times> int \<times> (error + point list)" where
  "drawCell hst ev cellX cellY cellW cellH rng scale collectPoints =
     (let (borderWeight, borderAlpha) = cellBorder ev scale in
      case logAiPromptLength ev of
        Inl err \<Rightarrow> ([], rng, Inl err)
      | Inr _ \<Rightarrow>
          (let border = [Stroke 0 borderAlpha, StrokeWeight borderWeight, NoFill,
                         Rect cellX cellY cellW cellH]
           in case ev of
                None \<Rightarrow> (border, rng, Inr [])
              | Some e \<Rightarrow>
                  if event e = ''policy_violation'' then
                    (case drawPolicyViolationCell hst cellX cellY cellW cellH (severity e) scale of
                       (cmds, Inl err) \<Rightarrow> (border @ cmds, rng, Inl err)
                     | (cmds, Inr _) \<Rightarrow> (border @ cmds, rng, Inr []))
                  else
                    (let angle = getHatchAngle e;
                         params = getHatchParams (severity e);
                         eraseRatio = eraseRatioOf e;
                         (hatch, res) =
                           (case angle of
                              Single a \<Rightarrow>
                                drawHatchLines hst cellX cellY cellW cellH a (spacing params)
                                  (weight params) (real_of_int (alpha params)) scale eraseRatio
                            | Cross _ \<Rightarrow> ([], Inr ()))
                     in case res of
                          Inl err \<Rightarrow> (border @ hatch, rng, Inl err)
                        | Inr _ \<Rightarrow>
                            (let (motif, rng1, points) =
                                   editMotifs hst e cellX cellY cellW cellH rng scale collectPoints
                             in (border @ hatch @ motif, rng1, Inr points)))))"

section \<open>Event preparer (lewitt.js)\<close>

text \<open>
  \<open>prepareEvents\<close> copies the array (\<open>[...events]\<close>), not the event objects: the
  assignments to \<open>hasSnapshotAfter\<close> and \<open>aiPromptLength\<close> reach the caller's objects.
  The caller's array is the list \<open>store\<close>; the object at position \<open>i\<close> is referred to
  by the index \<open>i\<close>, and the working arrays \<open>sorted\<close> and \<open>filtered\<close> are lists of such
  references.  \<open>Array.prototype.sort\<close> is stable, as \<open>sort_key\<close> is.
\<close>

text \<open>\<open>a.ts || 0\<close>.\<close>

definition tsKey :: "event \<Rightarrow> int" where
  "tsKey e = (case ts e of None \<Rightarrow> 0 | Some t \<Rightarrow> t)"

definition sortedRefs :: "event list \<Rightarrow> nat list" where
  "sortedRefs store = sort_key (\<lambda>i. tsKey (store ! i)) [0..<length store]"

text \<open>
  First loop: \<open>sorted[i].hasSnapshotAfter = true\<close> where \<open>sorted[i]\<close> is an edit and
  \<open>sorted[i + 1]\<close> a snapshot, for \<open>i < sorted.length - 1\<close>.
\<close>

fun markSnapshots :: "nat list \<Rightarrow> event list \<Rightarrow> event list" where
  "markSnapshots (i # j # rest) store =
     markSnapshots (j # rest)
       (if event (store ! i) = ''edit'' \<and> event (store ! j) = ''snapshot''
        then store[i := (store ! i)\<lparr>hasSnapshotAfter := Some True\<rparr>]
        else store)"
| "markSnapshots [i] store = store"
| "markSnapshots [] store = store"

text \<open>\<open>evt.prompt\<close> as a condition: present and not the empty string.\<close>

definition truthyString :: "string option \<Rightarrow> bool" where
  "truthyString s = (case s of None \<Rightarrow> False | Some str \<Rightarrow> str \<noteq> [])"

text \<open>
  Second loop, with the running \<open>currentAiPromptLength\<close> as \<open>cur\<close>.
\<close>

fun markAiPrompts :: "nat list \<Rightarrow> nat \<Rightarrow> event list \<Rightarrow> event list" where
  "markAiPrompts [] cur store = store"
| "markAiPrompts (i # rest) cur store =
     (let evt = store ! i in
      if event evt = ''ai_prompt'' \<and> truthyString (prompt evt) then
        markAiPrompts rest (length (the (prompt evt))) store
      else if event evt = ''mode_change'' \<and> to evt = Some ''human'' then
        markAiPrompts rest 0 store
      else if event evt = ''edit'' \<and> origin_mode evt = Some ''ai'' \<and> cur > 0 then
        markAiPrompts rest cur (store[i := evt\<lparr>aiPromptLength := Some cur\<rparr>])
      else
        markAiPrompts rest cur store)"

text \<open>
  \<open>uniformSample\<close>: the step and the products \<open>i * step\<close> are rounded, which moves some
  of the indices \<open>Math.floor(i * step)\<close> one down from those of the exact quotient.
\<close>

definition uniformSample :: "nat list \<Rightarrow> nat \<Rightarrow> nat list" where
  "uniformSample filtered n =
     (let step = ddiv (real (length filtered)) (real n) in
      map (\<lambda>i. filtered ! nat \<lfloor>dmul (real i) step\<rfloor>) [0..<n])"

definition typeOrder :: "string list" where
  "typeOrder = [''edit'', ''snapshot'', ''mode_change'', ''policy_violation'',
                ''session_start'', ''session_pause'', ''session_resume'']"

text \<open>\<open>Array.prototype.indexOf\<close>: the first position of the value, or \<open>-1\<close>.\<close>

fun indexOf :: "'a list \<Rightarrow> 'a \<Rightarrow> int" where
  "indexOf [] v = - 1"
| "indexOf (x # xs) v =
     (if x = v then 0 else (let r = indexOf xs v in if r < 0 then - 1 else r + 1))"

definition orderRefs :: "string \<Rightarrow> event list \<Rightarrow> nat list \<Rightarrow> nat list" where
  "orderRefs ord store filtered =
     (if ord = ''time'' then sort_key (\<lambda>i. tsKey (store ! i)) filtered
      else if ord = ''severity'' then sort_key (\<lambda>i. - severity (store ! i)) filtered
      else if ord = ''type_blocks'' then
        sort_key (\<lambda>i. (indexOf typeOrder (event (store ! i)), tsKey (store ! i))) filtered
      else filtered)"

text \<open>
  The references that \<open>prepareEvents\<close> returns, computed from the store left by the two
  marking passes (the fields read here are not assigned by them).
\<close>

definition selectRefs :: "event list \<Rightarrow> config \<Rightarrow> nat list" where
  "selectRefs store cfg =
     (let sorted = sortedRefs store;
          edits = filter (\<lambda>i. event (store ! i) = ''edit'') sorted;
          filtered = (if length edits = 0 then sorted else edits);
          sampled = (if length filtered > maxEvents cfg \<and> sampling cfg = ''uniform''
                     then uniformSample filtered (maxEvents cfg)
                     else filtered)
      in orderRefs (order cfg) store sampled)"

text \<open>
  \<open>prepareEvents\<close>: the returned array (as references) and the caller's objects after
  the call.
\<close>

definition markEvents :: "event list \<Rightarrow> event list" where
  "markEvents store =
     (let sorted = sortedRefs store in
      markAiPrompts sorted 0 (markSnapshots sorted store))"

definition prepareEvents :: "event list \<Rightarrow> config \<Rightarrow> nat list \<times> event list" where
  "prepareEvents store cfg =
     (let store1 = markEvents store in (selectRefs store1 cfg, store1))"

text \<open>The objects of the returned array, as the renderer reads them afterwards.\<close>

definition preparedEvents :: "event list \<Rightarrow> config \<Rightarrow> event list" where
  "preparedEvents store cfg =
     (let (refs, store1) = prepareEvents store cfg in map (\<lambda>i. store1 ! i) refs)"

section \<open>Grid composer (lewitt.js)\<close>

definition drawPoints :: "point list \<Rightarrow> real \<Rightarrow> real \<Rightarrow> real \<Rightarrow> cmd list" where
  "drawPoints points sz al scale =
     (let scaledSize = max 2 (dmul sz scale) in
      [Fill 0 al, NoStroke]
      @ map (\<lambda>p. Ellipse (pt_x p) (pt_y p) scaledSize scaledSize) points)"

record neighbor =
  nb_index :: nat
  nb_dist :: real

text \<open>
  \<open>connectNearestNeighbor\<close>.  The set \<open>drawn\<close> of the keys \<open>`${minIdx}-${maxIdx}`\<close> is a
  list of the pairs \<open>(minIdx, maxIdx)\<close>.  \<open>Math.pow(d, 2)\<close> is the rounded product
  \<open>d * d\<close>.
\<close>

definition distancesFrom :: "point list \<Rightarrow> nat \<Rightarrow> neighbor list" where
  "distancesFrom points i =
     map (\<lambda>j. let ddx = dsub (pt_x (points ! j)) (pt_x (points ! i));
                  ddy = dsub (pt_y (points ! j)) (pt_y (points ! i))
              in \<lparr> nb_index = j, nb_dist = dsqrt (dadd (dmul ddx ddx) (dmul ddy ddy)) \<rparr>)
         (filter (\<lambda>j. i \<noteq> j) [0..<length points])"

fun connectNeighbors ::
  "point list \<Rightarrow> nat \<Rightarrow> neighbor list \<Rightarrow> (nat \<times> nat) list \<Rightarrow> cmd list \<times> (nat \<times> nat) list" where
  "connectNeighbors points i [] drawn = ([], drawn)"
| "connectNeighbors points i (nb # rest) drawn =
     (let edgeKey = (min i (nb_index nb), max i (nb_index nb)) in
      if edgeKey \<notin> set drawn then
        (let (cmds, drawn1) = connectNeighbors points i rest (drawn @ [edgeKey]) in
         (Line (pt_x (points ! i)) (pt_y (points ! i))
               (pt_x (points ! nb_index nb)) (pt_y (points ! nb_index nb)) # cmds, drawn1))
      else connectNeighbors points i rest drawn)"

fun connectLoop ::
  "point list \<Rightarrow> nat list \<Rightarrow> (nat \<times> nat) list \<Rightarrow> cmd list" where
  "connectLoop points [] drawn = []"
| "connectLoop points (i # rest) drawn =
     (let nearest = take 2 (sort_key nb_dist (distancesFrom points i));
          (cmds, drawn1) = connectNeighbors points i nearest drawn
      in cmds @ connectLoop points rest drawn1)"

definition connectNearestNeighbor :: "point list \<Rightarrow> real \<Rightarrow> real \<Rightarrow> real \<Rightarrow> cmd list" where
  "connectNearestNeighbor points wt al scale =
     (if length points < 2 then []
      else [Stroke 0 al, StrokeWeight (max (5 / 10) (dmul wt scale))]
           @ connectLoop points [0..<length points] [])"

text \<open>
  The position visited by the iteration \<open>(row, colIdx)\<close> of the nested row and column loop of
  \<open>drawLeWittGrid\<close>, and the positions of all iterations in the order of iteration.
\<close>

definition cellColumn :: "nat \<Rightarrow> nat \<Rightarrow> nat \<Rightarrow> nat" where
  "cellColumn gridSize row colIdx =
     (let isEvenRow = (row mod 2 = 0) in
      if isEvenRow then colIdx else gridSize - 1 - colIdx)"

definition cellOrder :: "nat \<Rightarrow> (nat \<times> nat) list" where
  "cellOrder gridSize =
     concat (map (\<lambda>row. map (\<lambda>colIdx. (row, cellColumn gridSize row colIdx)) [0..<gridSize])
                 [0..<gridSize])"

text \<open>\<open>eventIdx < preparedEvents.length ? preparedEvents[eventIdx] : null\<close>.\<close>

definition eventAt :: "event list \<Rightarrow> nat \<Rightarrow> event option" where
  "eventAt prepared eventIdx =
     (if eventIdx < length prepared then Some (prepared ! eventIdx) else None)"

text \<open>
  The body of the nested loop over the remaining positions, from the counter
  \<open>eventIdx\<close>: the calls made, the seed, and either the reason why a \<open>drawCell\<close> did not
  return or the boundary points collected.  The last component lists the positions for
  which \<open>drawCell\<close> returned, with the event each was given.
\<close>

fun drawCells ::
  "host \<Rightarrow> (nat \<times> nat) list \<Rightarrow> nat \<Rightarrow> event list \<Rightarrow> real \<Rightarrow> real \<Rightarrow> real \<Rightarrow> int \<Rightarrow> real
     \<Rightarrow> cmd list \<times> int \<times> (error + point list) \<times> (nat \<times> nat \<times> event option) list" where
  "drawCells hst [] eventIdx prepared margin cellW cellH rng scale = ([], rng, Inr [], [])"
| "drawCells hst ((row, col) # rest) eventIdx prepared margin cellW cellH rng scale =
     (let cellX = dadd margin (dmul (real col) cellW);
          cellY = dadd margin (dmul (real row) cellH);
          ev = eventAt prepared eventIdx
      in case drawCell hst ev cellX cellY cellW cellH rng scale True of
           (cmds, rng1, Inl err) \<Rightarrow> (cmds, rng1, Inl err, [])
         | (cmds, rng1, Inr cellPoints) \<Rightarrow>
             (case drawCells hst rest (eventIdx + 1) prepared margin cellW cellH rng1 scale of
                (cmds', rng2, res, visited) \<Rightarrow>
                  (cmds @ cmds', rng2,
                   (case res of Inl err \<Rightarrow> Inl err | Inr pts \<Rightarrow> Inr (cellPoints @ pts)),
                   (row, col, ev) # visited)))"

record cell_dimensions =
  cd_width :: real
  cd_height :: real

record render_info =
  ri_seed :: int
  ri_gridSize :: int
  ri_eventCount :: nat
  ri_cellDimensions :: cell_dimensions
  ri_boundaryPointCount :: nat

text \<open>
  \<open>drawLeWittGrid\<close>.  \<open>hst\<close> gives \<open>Math.cos\<close> and \<open>Math.sin\<close>; \<open>now\<close> is the value of
  \<open>Date.now()\<close>, read when \<open>config.seed\<close> is 0; \<open>store\<close> is the caller's array of
  events.  The result is the list of the calls made
  on the drawing surface, either the reason why the render did not return or the object
  it returns, and the caller's events after the call.  The parameter
  \<open>usePointConnectionMode\<close> is not read by the source.  (For a grid size of 0 the
  source's cell dimensions are not finite numbers; no cell is drawn then.)
\<close>

definition drawLeWittGrid ::
  "host \<Rightarrow> int \<Rightarrow> event list \<Rightarrow> real \<Rightarrow> real \<Rightarrow> config \<Rightarrow> real \<Rightarrow> bool
     \<Rightarrow> cmd list \<times> (error + render_info) \<times> event list" where
  "drawLeWittGrid hst now store canvasWidth canvasHeight cfg scale usePointConnectionMode =
     (let seed0 = (if seed cfg \<noteq> 0 then seed cfg else now);
          (refs, store1) = prepareEvents store cfg;
          prepared = map (\<lambda>i. store1 ! i) refs;
          gridSize = calculateGridSize (length prepared) cfg;
          margin = dmul canvasWidth (marginRatio cfg);
          drawWidth = dsub canvasWidth (dmul 2 margin);
          drawHeight = dsub canvasHeight (dmul 2 margin);
          cellW = ddiv drawWidth (real_of_int gridSize);
          cellH = ddiv drawHeight (real_of_int gridSize);
          setup = [StrokeCapSquare, NoFill]
      in case drawCells hst (cellOrder (nat gridSize)) 0 prepared margin cellW cellH seed0
                scale of
           (cmds, rng1, Inl err, visited) \<Rightarrow> (setup @ cmds, Inl err, store1)
         | (cmds, rng1, Inr allBoundaryPoints, visited) \<Rightarrow>
             (setup @ cmds
              @ (if length allBoundaryPoints > 0
                 then drawPoints allBoundaryPoints 4 200 scale
                      @ connectNearestNeighbor allBoundaryPoints (fl (12 / 10)) 150 scale
                 else []),
              Inr \<lparr> ri_seed = seed0, ri_gridSize = gridSize,
                    ri_eventCount = length prepared,
                    ri_cellDimensions = \<lparr> cd_width = cellW, cd_height = cellH \<rparr>,
                    ri_boundaryPointCount = length allBoundaryPoints \<rparr>,
              store1))"

text \<open>
  The positions for which \<open>drawCell\<close> returned during a render, in order, with the event
  each was given.
\<close>

definition cellsDrawn ::
  "host \<Rightarrow> int \<Rightarrow> event list \<Rightarrow> real \<Rightarrow> real \<Rightarrow> config \<Rightarrow> real
     \<Rightarrow> (nat \<times> nat \<times> event option) list" where
  "cellsDrawn hst now store canvasWidth canvasHeight cfg scale =
     (let seed0 = (if seed cfg \<noteq> 0 then seed cfg else now);
          prepared = preparedEvents store cfg;
          gridSize = calculateGridSize (length prepared) cfg;
          margin = dmul canvasWidth (marginRatio cfg);
          cellW = ddiv (dsub canvasWidth (dmul 2 margin)) (real_of_int gridSize);
          cellH = ddiv (dsub canvasHeight (dmul 2 margin)) (real_of_int gridSize)
      in case drawCells hst (cellOrder (nat gridSize)) 0 prepared margin cellW cellH seed0
                scale of
           (cmds, rng1, res, visited) \<Rightarrow> visited)"

section \<open>Definitions used in the statements and proofs\<close>

text \<open>
  The severity rules as the specification words them (section 4.1), in priority order,
  on the event kind, the three flags and the two character counts.  The clamp to
  \<open>[0, 1]\<close> and the floor \<open>0.1\<close> are written out as comparisons.
\<close>

definition specSeverity :: "string \<Rightarrow> bool \<Rightarrow> bool \<Rightarrow> bool \<Rightarrow> nat \<Rightarrow> nat \<Rightarrow> real" where
  "specSeverity kd undo redo paste added deleted =
     (if kd = ''policy_violation'' then 1
      else if kd = ''edit'' \<and> undo then 15 / 100
      else if kd = ''edit'' \<and> redo then 25 / 100
      else if kd = ''edit'' \<and> paste then 85 / 100
      else if kd = ''edit'' then
        (let chars = added + deleted;
             normalized = ln (1 + real chars) / ln (1 + 30000);
             root = sqrt normalized;
             clamped = (if root < 0 then 0 else if 1 < root then 1 else root)
         in if clamped < 1 / 10 then 1 / 10 else clamped)
      else if kd = ''snapshot'' then 2 / 10
      else if kd = ''session_start'' then 4 / 10
      else if kd = ''session_pause'' then 3 / 10
      else if kd = ''session_resume'' then 35 / 100
      else if kd = ''mode_change'' then 3 / 10
      else 5 / 10)"

text \<open>
  The parameter \<open>t\<close> satisfies every half-plane constraint \<open>p * t \<le> q\<close> of the list.
\<close>

definition feasible :: "(real \<times> real) list \<Rightarrow> real \<Rightarrow> bool" where
  "feasible cs t \<longleftrightarrow> (\<forall>c \<in> set cs. fst c * t \<le> snd c)"

text \<open>
  Three log records used as concrete inputs: an \<open>ai_prompt\<close> with the prompt
  \<open>hello\<close>, an AI edit adding twelve characters, and a snapshot, at the times 1, 2, 3.
\<close>

definition exPrompt :: raw_event where
  "exPrompt = \<lparr> raw_ts = Some 1, raw_elapsed_ms = None, raw_event = ''ai_prompt'',
     raw_origin_mode = None, raw_kind = None, raw_file = None, raw_delta = None,
     raw_flags = None, raw_detail = None, raw_session_id = None, raw_workspace_id = None,
     raw_prompt = Some ''hello'', raw_to = None \<rparr>"

definition exAiEdit :: raw_event where
  "exAiEdit = \<lparr> raw_ts = Some 2, raw_elapsed_ms = None, raw_event = ''edit'',
     raw_origin_mode = Some ''ai'', raw_kind = None, raw_file = None,
     raw_delta = Some \<lparr> raw_added_chars = Some 12, raw_deleted_chars = None,
                         raw_added_lines = Some 1, raw_deleted_lines = None \<rparr>,
     raw_flags = None, raw_detail = None, raw_session_id = None, raw_workspace_id = None,
     raw_prompt = None, raw_to = None \<rparr>"

definition exSnapshot :: raw_event where
  "exSnapshot = \<lparr> raw_ts = Some 3, raw_elapsed_ms = None, raw_event = ''snapshot'',
     raw_origin_mode = None, raw_kind = None, raw_file = None, raw_delta = None,
     raw_flags = None, raw_detail = None, raw_session_id = None, raw_workspace_id = None,
     raw_prompt = None, raw_to = None \<rparr>"

text \<open>
  Three more records: a policy violation, an edit that changes no character, and a
  paste-like edit of 5003 characters.
\<close>

definition exPolicy :: raw_event where
  "exPolicy = \<lparr> raw_ts = Some 4, raw_elapsed_ms = None, raw_event = ''policy_violation'',
     raw_origin_mode = None, raw_kind = None, raw_file = None, raw_delta = None,
     raw_flags = None, raw_detail = None, raw_session_id = None, raw_workspace_id = None,
     raw_prompt = None, raw_to = None \<rparr>"

definition exEmptyEdit :: raw_event where
  "exEmptyEdit = \<lparr> raw_ts = Some 5, raw_elapsed_ms = None, raw_event = ''edit'',
     raw_origin_mode = Some ''human'', raw_kind = None, raw_file = None,
     raw_delta = Some \<lparr> raw_added_chars = Some 0, raw_deleted_chars = Some 0,
                         raw_added_lines = None, raw_deleted_lines = None \<rparr>,
     raw_flags = None, raw_detail = None, raw_session_id = None, raw_workspace_id = None,
     raw_prompt = None, raw_to = None \<rparr>"

definition exPasteEdit :: raw_event where
  "exPasteEdit = \<lparr> raw_ts = Some 6, raw_elapsed_ms = None, raw_event = ''edit'',
     raw_origin_mode = Some ''human'', raw_kind = None, raw_file = None,
     raw_delta = Some \<lparr> raw_added_chars = Some 5000, raw_deleted_chars = Some 3,
                         raw_added_lines = Some 120, raw_deleted_lines = None \<rparr>,
     raw_flags = Some \<lparr> raw_is_paste_like = Some True, raw_is_undo_like = None,
                         raw_is_redo_like = Some False \<rparr>,
     raw_detail = None, raw_session_id = None, raw_workspace_id = None,
     raw_prompt = None, raw_to = None \<rparr>"

text \<open>
  Three more edits without flags: one of 30000 characters, one of 40000 and one of 173.
\<close>

definition exBigEdit :: raw_event where
  "exBigEdit = \<lparr> raw_ts = Some 7, raw_elapsed_ms = None, raw_event = ''edit'',
     raw_origin_mode = Some ''human'', raw_kind = None, raw_file = None,
     raw_delta = Some \<lparr> raw_added_chars = Some 29990, raw_deleted_chars = Some 10,
                         raw_added_lines = None, raw_deleted_lines = None \<rparr>,
     raw_flags = None, raw_detail = None, raw_session_id = None, raw_workspace_id = None,
     raw_prompt = None, raw_to = None \<rparr>"

definition exHugeEdit :: raw_event where
  "exHugeEdit = \<lparr> raw_ts = Some 8, raw_elapsed_ms = None, raw_event = ''edit'',
     raw_origin_mode = Some ''human'', raw_kind = None, raw_file = None,
     raw_delta = Some \<lparr> raw_added_chars = Some 40000, raw_deleted_chars = None,
                         raw_added_lines = None, raw_deleted_lines = None \<rparr>,
     raw_flags = Some \<lparr> raw_is_paste_like = Some False, raw_is_undo_like = None,
                         raw_is_redo_like = None \<rparr>,
     raw_detail = None, raw_session_id = None, raw_workspace_id = None,
     raw_prompt = None, raw_to = None \<rparr>"

definition exMidEdit :: raw_event where
  "exMidEdit = \<lparr> raw_ts = Some 9, raw_elapsed_ms = None, raw_event = ''edit'',
     raw_origin_mode = Some ''ai'', raw_kind = None, raw_file = None,
     raw_delta = Some \<lparr> raw_added_chars = Some 170, raw_deleted_chars = Some 3,
                         raw_added_lines = None, raw_deleted_lines = None \<rparr>,
     raw_flags = None, raw_detail = None, raw_session_id = None, raw_workspace_id = None,
     raw_prompt = None, raw_to = None \<rparr>"


text \<open>A hole: the square with the corners \<open>(0, 0)\<close> and \<open>(2, 2)\<close>.\<close>

definition exHole :: rect where
  "exHole = \<lparr> rect_x = 0, rect_y = 0, rect_w = 2, rect_h = 2 \<rparr>"

text \<open>
  What the nested loop of \<open>drawLeWittGrid\<close> is written to do: every position of the
  loop order, each with the next prepared event (\<open>None\<close> once exhausted).
\<close>

fun visitPlan :: "(nat \<times> nat) list \<Rightarrow> nat \<Rightarrow> event list \<Rightarrow> (nat \<times> nat \<times> event option) list" where
  "visitPlan [] eventIdx prepared = []"
| "visitPlan ((row, col) # rest) eventIdx prepared =
     (row, col, eventAt prepared eventIdx) # visitPlan rest (eventIdx + 1) prepared"

definition hasEvent :: "nat \<times> nat \<times> event option \<Rightarrow> bool" where
  "hasEvent v = (case v of (row, col, ev) \<Rightarrow> ev \<noteq> None)"

text \<open>
  An event with the annotation \<open>aiPromptLength\<close>, with \<open>hasSnapshotAfter\<close>, or with
  both removed: what the marking passes of \<open>prepareEvents\<close> never assign.
\<close>

definition clearAi :: "event \<Rightarrow> event" where
  "clearAi e = e\<lparr>aiPromptLength := None\<rparr>"

definition clearSnap :: "event \<Rightarrow> event" where
  "clearSnap e = e\<lparr>hasSnapshotAfter := None\<rparr>"

definition clearMarks :: "event \<Rightarrow> event" where
  "clearMarks e = e\<lparr>hasSnapshotAfter := None, aiPromptLength := None\<rparr>"

text \<open>
  The store already carries every mark that the first, respectively the second, marking
  loop would assign along the given references.
\<close>

fun snapMarked :: "nat list \<Rightarrow> event list \<Rightarrow> bool" where
  "snapMarked (i # j # rest) store =
     ((event (store ! i) = ''edit'' \<and> event (store ! j) = ''snapshot''
         \<longrightarrow> hasSnapshotAfter (store ! i) = Some True)
      \<and> snapMarked (j # rest) store)"
| "snapMarked [i] store = True"
| "snapMarked [] store = True"

fun aiMarked :: "nat list \<Rightarrow> nat \<Rightarrow> event list \<Rightarrow> bool" where
  "aiMarked [] cur store = True"
| "aiMarked (i # rest) cur store =
     (let evt = store ! i in
      if event evt = ''ai_prompt'' \<and> truthyString (prompt evt) then
        aiMarked rest (length (the (prompt evt))) store
      else if event evt = ''mode_change'' \<and> to evt = Some ''human'' then
        aiMarked rest 0 store
      else if event evt = ''edit'' \<and> origin_mode evt = Some ''ai'' \<and> cur > 0 then
        aiPromptLength evt = Some cur \<and> aiMarked rest cur store
      else
        aiMarked rest cur store)"
section \<open>Rounding to the nearest number\<close>

lemma pow2_pos [simp]: "0 < (2::real) powi a"
  by (rule zero_less_power_int) simp

lemma pow2_le_iff: "(2::real) powi a \<le> 2 powi b \<longleftrightarrow> a \<le> b"
proof
  assume h: "(2::real) powi a \<le> 2 powi b"
  show "a \<le> b"
  proof (rule ccontr)
    assume "\<not> a \<le> b"
    then have "b < a" by simp
    then have "(2::real) powi b < 2 powi a" by (rule power_int_strict_increasing) simp
    with h show False by simp
  qed
next
  assume "a \<le> b"
  then show "(2::real) powi a \<le> 2 powi b" by (rule power_int_increasing) simp
qed

lemma pow2_less_iff: "(2::real) powi a < 2 powi b \<longleftrightarrow> a < b"
  using pow2_le_iff [of b a] by (simp add: not_le [symmetric])

lemma expo_bounds:
  assumes "x \<noteq> 0"
  shows "2 powi expo x \<le> \<bar>x\<bar> \<and> \<bar>x\<bar> < 2 powi (expo x + 1)"
proof (cases "1 \<le> \<bar>x\<bar>")
  case True
  define n where "n = \<lfloor>\<bar>x\<bar>\<rfloor>"
  have n: "0 < n" using True by (simp add: n_def)
  have b: "0 < bitlen n" using n bitlen_nonneg [of n] bitlen_eq_zero_iff [of n] by linarith
  from bitlen_bounds [OF n] have 1: "2 ^ nat (bitlen n - 1) \<le> n" and 2: "n < 2 ^ nat (bitlen n)"
    by simp_all
  have e: "expo x = bitlen n - 1" using True by (simp add: expo_def n_def)
  have "(2::real) powi (bitlen n - 1) = 2 ^ nat (bitlen n - 1)"
    using b by (simp add: power_int_def)
  also have "\<dots> = of_int (2 ^ nat (bitlen n - 1))" by simp
  also have "\<dots> \<le> of_int n" using 1 by (simp only: of_int_le_iff)
  also have "\<dots> \<le> \<bar>x\<bar>" by (simp add: n_def)
  finally have lo: "2 powi expo x \<le> \<bar>x\<bar>" by (simp add: e)
  have "n + 1 \<le> 2 ^ nat (bitlen n)" using 2 by simp
  then have "of_int (n + 1) \<le> (of_int (2 ^ nat (bitlen n)) :: real)" by (simp only: of_int_le_iff)
  moreover have "\<bar>x\<bar> < of_int (n + 1)" unfolding n_def by linarith
  ultimately have "\<bar>x\<bar> < 2 ^ nat (bitlen n)" by simp
  also have "(2::real) ^ nat (bitlen n) = 2 powi (bitlen n)" using b by (simp add: power_int_def)
  finally have hi: "\<bar>x\<bar> < 2 powi (expo x + 1)" by (simp add: e)
  from lo hi show ?thesis ..
next
  case False
  define y where "y = 1 / \<bar>x\<bar>"
  have y: "1 < y" using False assms by (simp add: y_def)
  define n where "n = \<lceil>y\<rceil> - 1"
  have n: "0 < n" using y unfolding n_def by linarith
  have ny: "of_int n < y" "y \<le> of_int n + 1" unfolding n_def by linarith+
  have b: "0 < bitlen n" using n bitlen_nonneg [of n] bitlen_eq_zero_iff [of n] by linarith
  from bitlen_bounds [OF n] have 1: "2 ^ nat (bitlen n - 1) \<le> n" and 2: "n < 2 ^ nat (bitlen n)"
    by simp_all
  have e: "expo x = - bitlen n" using False by (simp add: expo_def n_def y_def)
  have x: "\<bar>x\<bar> = 1 / y" "0 < \<bar>x\<bar>" using assms by (simp_all add: y_def)
  have "n + 1 \<le> 2 ^ nat (bitlen n)" using 2 by simp
  then have "of_int (n + 1) \<le> (of_int (2 ^ nat (bitlen n)) :: real)" by (simp only: of_int_le_iff)
  with ny have "y \<le> 2 ^ nat (bitlen n)" by simp
  then have "1 / 2 ^ nat (bitlen n) \<le> 1 / y" using y by (simp add: frac_le)
  moreover have "(2::real) powi (- bitlen n) = 1 / 2 ^ nat (bitlen n)"
  proof -
    have "- bitlen n = - int (nat (bitlen n))" using b by simp
    then show ?thesis by (simp only: power_int_minus power_int_of_nat divide_inverse mult_1)
  qed
  ultimately have lo: "2 powi expo x \<le> \<bar>x\<bar>" by (simp add: e x)
  have "(of_int (2 ^ nat (bitlen n - 1)) :: real) \<le> of_int n" using 1 by (simp only: of_int_le_iff)
  then have "(2::real) ^ nat (bitlen n - 1) \<le> of_int n" by simp
  with ny have "2 ^ nat (bitlen n - 1) < y" by linarith
  then have "1 / y < 1 / 2 ^ nat (bitlen n - 1)" by (simp add: frac_less2)
  moreover have "(2::real) powi (- bitlen n + 1) = 1 / 2 ^ nat (bitlen n - 1)"
  proof -
    have "- bitlen n + 1 = - int (nat (bitlen n - 1))" using b by simp
    then show ?thesis by (simp only: power_int_minus power_int_of_nat divide_inverse mult_1)
  qed
  ultimately have hi: "\<bar>x\<bar> < 2 powi (expo x + 1)" by (simp add: e x)
  from lo hi show ?thesis ..
qed

lemma expo_unique:
  assumes lo: "2 powi e \<le> \<bar>x\<bar>" and hi: "\<bar>x\<bar> < 2 powi (e + 1)"
  shows "expo x = e"
proof -
  have "(0::real) < 2 powi e" by (rule pow2_pos)
  with lo have "0 < \<bar>x\<bar>" by linarith
  then have x: "x \<noteq> 0" by simp
  from expo_bounds [OF x] have b: "2 powi expo x \<le> \<bar>x\<bar>" "\<bar>x\<bar> < 2 powi (expo x + 1)" by simp_all
  have "(2::real) powi e < 2 powi (expo x + 1)" using lo b(2) by linarith
  then have 1: "e < expo x + 1" by (simp add: pow2_less_iff)
  have "(2::real) powi expo x < 2 powi (e + 1)" using hi b(1) by linarith
  then have 2: "expo x < e + 1" by (simp add: pow2_less_iff)
  from 1 2 show ?thesis by simp
qed

lemma rne_cases:
  "(rne m = \<lfloor>m\<rfloor> \<and> m - of_int \<lfloor>m\<rfloor> \<le> 1 / 2 \<and> (m - of_int \<lfloor>m\<rfloor> = 1 / 2 \<longrightarrow> even \<lfloor>m\<rfloor>))
   \<or> (rne m = \<lfloor>m\<rfloor> + 1 \<and> 1 / 2 \<le> m - of_int \<lfloor>m\<rfloor> \<and> (m - of_int \<lfloor>m\<rfloor> = 1 / 2 \<longrightarrow> odd \<lfloor>m\<rfloor>))"
  by (auto simp: rne_def Let_def)

lemma rne_near: "\<bar>of_int (rne m) - m\<bar> \<le> 1 / 2"
  using rne_cases [of m] by (auto simp: abs_le_iff)

lemma rne_of_int [simp]: "rne (of_int n) = n"
  by (simp add: rne_def)

lemma rne_mono:
  assumes "a \<le> b"
  shows "rne a \<le> rne b"
proof (cases "a = b")
  case True
  then show ?thesis by simp
next
  case False
  with assms have ab: "a < b" by simp
  from rne_near [of a] rne_near [of b]
  have "of_int (rne a) \<le> a + 1 / 2" "b - 1 / 2 \<le> of_int (rne b)"
    by linarith+
  with ab have "(of_int (rne a) :: real) < of_int (rne b) + 1" by linarith
  then have "(of_int (rne a) :: real) < of_int (rne b + 1)" by simp
  then have "rne a < rne b + 1" by (simp only: of_int_less_iff)
  then show ?thesis by simp
qed

lemma rne_minus: "rne (- m) = - rne m"
proof (cases "m = of_int \<lfloor>m\<rfloor>")
  case True
  then obtain n where "m = of_int n" ..
  then have "rne (- m) = rne (of_int (- n))" by simp
  also have "\<dots> = - n" by (rule rne_of_int)
  finally show ?thesis using \<open>m = of_int n\<close> by simp
next
  case False
  define f where "f = \<lfloor>m\<rfloor>"
  define d where "d = m - of_int f"
  have d: "0 < d" "d < 1" using False unfolding d_def f_def by linarith+
  have fm: "\<lfloor>- m\<rfloor> = - f - 1"
  proof (rule floor_unique)
    show "of_int (- f - 1) \<le> - m" using d by (simp add: d_def)
    show "- m < of_int (- f - 1) + 1" using d by (simp add: d_def)
  qed
  have d': "- m - of_int (- f - 1) = 1 - d" by (simp add: d_def)
  have 1: "rne m = (if d < 1 / 2 then f else if 1 / 2 < d then f + 1
                    else if even f then f else f + 1)"
    by (simp add: rne_def Let_def f_def d_def)
  have 2: "rne (- m) = (if 1 - d < 1 / 2 then - f - 1 else if 1 / 2 < 1 - d then - f
                    else if even (- f - 1) then - f - 1 else - f)"
    unfolding rne_def Let_def fm d' by simp
  show ?thesis unfolding 1 2 using d by auto
qed

lemma fl_0 [simp]: "fl 0 = 0"
  by (simp add: fl_def)

lemma expo_minus [simp]: "expo (- x) = expo x"
  by (simp add: expo_def)

lemma fl_minus: "fl (- x) = - fl x"
  by (simp add: fl_def Let_def rne_minus)

lemma fl_nz:
  "x \<noteq> 0 \<Longrightarrow> fl x = of_int (rne (x / 2 powi (expo x - 52))) * 2 powi (expo x - 52)"
  by (simp add: fl_def Let_def)

lemma pow2_split: "(2::real) powi (a + b) = 2 powi a * 2 powi b"
  by (rule power_int_add) simp

lemma pow2_diff: "(2::real) powi (a - b) = 2 powi a / 2 powi b"
  by (rule power_int_diff) simp

lemma pow2_52: "(2::real) powi 52 = 4503599627370496" "(2::real) powi 53 = 9007199254740992"
  by (simp_all add: power_int_def)

text \<open>The scaled significand of a positive number lies in \<open>[2^52, 2^53)\<close>.\<close>

lemma mant_pos:
  assumes "0 < x"
  shows "2 ^ 52 \<le> x / 2 powi (expo x - 52)" "x / 2 powi (expo x - 52) < 2 ^ 53"
proof -
  have x: "x \<noteq> 0" "\<bar>x\<bar> = x" using assms by simp_all
  from expo_bounds [OF x(1)] x(2)
  have b: "2 powi expo x \<le> x" "x < 2 powi (expo x + 1)" by simp_all
  have s: "(2::real) powi (expo x - 52) = 2 powi expo x / 2 ^ 52"
    by (simp add: pow2_diff pow2_52)
  have p: "(0::real) < 2 powi expo x" by simp
  show "2 ^ 52 \<le> x / 2 powi (expo x - 52)"
    unfolding s using b(1) p by (simp add: field_simps)
  have "(2::real) powi (expo x + 1) = 2 powi expo x * 2" by (simp add: pow2_split)
  with b(2) have "x < 2 powi expo x * 2" by simp
  then show "x / 2 powi (expo x - 52) < 2 ^ 53"
    unfolding s using p by (simp add: field_simps)
qed

lemma rne_mant_pos:
  assumes "0 < x"
  shows "2 ^ 52 \<le> rne (x / 2 powi (expo x - 52))" "rne (x / 2 powi (expo x - 52)) \<le> 2 ^ 53"
proof -
  from mant_pos [OF assms]
  have "of_int (2 ^ 52) \<le> x / 2 powi (expo x - 52)" "x / 2 powi (expo x - 52) \<le> of_int (2 ^ 53)"
    by simp_all
  from rne_mono [OF this(1)] rne_mono [OF this(2)]
  show "2 ^ 52 \<le> rne (x / 2 powi (expo x - 52))" "rne (x / 2 powi (expo x - 52)) \<le> 2 ^ 53"
    by (simp_all only: rne_of_int)
qed

lemma fl_pos_bounds:
  assumes "0 < x"
  shows "2 powi expo x \<le> fl x" "fl x \<le> 2 powi (expo x + 1)"
proof -
  let ?s = "(2::real) powi (expo x - 52)"
  let ?r = "rne (x / ?s)"
  have f: "fl x = of_int ?r * ?s" using assms by (simp add: fl_nz)
  have s: "0 < ?s" by simp
  from rne_mant_pos [OF assms]
  have "(of_int (2 ^ 52) :: real) \<le> of_int ?r" "(of_int ?r :: real) \<le> of_int (2 ^ 53)"
    by (simp_all only: of_int_le_iff)
  then have r: "(2 ^ 52 :: real) \<le> of_int ?r" "(of_int ?r :: real) \<le> 2 ^ 53" by simp_all
  have "2 powi expo x = 2 ^ 52 * ?s" by (simp add: pow2_diff pow2_52)
  also have "\<dots> \<le> of_int ?r * ?s" using r(1) s by (rule mult_right_mono [OF _ less_imp_le])
  finally show "2 powi expo x \<le> fl x" by (simp add: f)
  have "fl x = of_int ?r * ?s" by (rule f)
  also have "\<dots> \<le> 2 ^ 53 * ?s" using r(2) s by (rule mult_right_mono [OF _ less_imp_le])
  also have "\<dots> = 2 powi (expo x + 1)" by (simp add: pow2_diff pow2_split pow2_52)
  finally show "fl x \<le> 2 powi (expo x + 1)" .
qed

lemma fl_pos: "0 < x \<Longrightarrow> 0 < fl x"
  using fl_pos_bounds(1) [of x] pow2_pos [of "expo x"] by linarith

lemma fl_mono_pos:
  assumes x: "0 < x" and xy: "x \<le> y"
  shows "fl x \<le> fl y"
proof -
  have y: "0 < y" using x xy by simp
  from expo_bounds [of x] expo_bounds [of y] x y
  have b: "2 powi expo x \<le> x" "y < 2 powi (expo y + 1)" by simp_all
  then have "(2::real) powi expo x < 2 powi (expo y + 1)" using xy by linarith
  then have le: "expo x \<le> expo y" by (simp add: pow2_less_iff)
  show ?thesis
  proof (cases "expo x = expo y")
    case True
    let ?s = "(2::real) powi (expo x - 52)"
    have "x / ?s \<le> y / ?s" using xy by (simp add: divide_right_mono)
    then have "rne (x / ?s) \<le> rne (y / ?s)" by (rule rne_mono)
    then have "(of_int (rne (x / ?s)) :: real) \<le> of_int (rne (y / ?s))" by (simp only: of_int_le_iff)
    then have "of_int (rne (x / ?s)) * ?s \<le> of_int (rne (y / ?s)) * ?s"
      by (rule mult_right_mono) simp
    then show ?thesis using x y True by (simp add: fl_nz)
  next
    case False
    with le have "expo x + 1 \<le> expo y" by simp
    then have "(2::real) powi (expo x + 1) \<le> 2 powi expo y" by (simp add: pow2_le_iff)
    with fl_pos_bounds(2) [OF x] fl_pos_bounds(1) [OF y] show ?thesis by linarith
  qed
qed

lemma fl_mono:
  assumes "x \<le> y"
  shows "fl x \<le> fl y"
proof -
  consider "0 < x" | "y < 0" | "x \<le> 0" "0 \<le> y" by linarith
  then show ?thesis
  proof cases
    case 1
    then show ?thesis using assms by (rule fl_mono_pos)
  next
    case 2
    then have "0 < - y" "- y \<le> - x" using assms by simp_all
    then have "fl (- y) \<le> fl (- x)" by (rule fl_mono_pos)
    then show ?thesis by (simp add: fl_minus)
  next
    case 3
    have a: "fl x \<le> 0"
    proof (cases "x = 0")
      case True then show ?thesis by simp
    next
      case False
      with 3 have "0 < - x" by simp
      from fl_pos [OF this] show ?thesis by (simp add: fl_minus)
    qed
    have b: "0 \<le> fl y"
    proof (cases "y = 0")
      case True then show ?thesis by simp
    next
      case False
      with 3 have "0 < y" by simp
      from fl_pos [OF this] show ?thesis by simp
    qed
    from a b show ?thesis by simp
  qed
qed

lemma fl_eq_0_iff [simp]: "fl x = 0 \<longleftrightarrow> x = 0"
proof
  assume h: "fl x = 0"
  show "x = 0"
  proof (rule ccontr)
    assume "x \<noteq> 0"
    then consider "0 < x" | "0 < - x" by linarith
    then show False
    proof cases
      case 1 from fl_pos [OF 1] h show False by simp
    next
      case 2 from fl_pos [OF 2] h show False by (simp add: fl_minus)
    qed
  qed
qed simp

lemma fl_nonneg: "0 \<le> x \<Longrightarrow> 0 \<le> fl x"
  using fl_mono [of 0 x] by simp

lemma fl_nonpos: "x \<le> 0 \<Longrightarrow> fl x \<le> 0"
  using fl_mono [of x 0] by simp

lemma fl_neg: "x < 0 \<Longrightarrow> fl x < 0"
  using fl_pos [of "- x"] by (simp add: fl_minus)

lemma fl_pos_iff [simp]: "0 < fl x \<longleftrightarrow> 0 < x"
  using fl_pos [of x] fl_nonpos [of x] by (auto simp: not_less [symmetric])

lemma fl_neg_iff [simp]: "fl x < 0 \<longleftrightarrow> x < 0"
  using fl_neg [of x] fl_nonneg [of x] by (auto simp: not_less [symmetric])

text \<open>The rounding error is at most half a unit in the last place.\<close>

lemma fl_error_pos:
  assumes "0 < x"
  shows "\<bar>fl x - x\<bar> \<le> 2 powi (expo x - 53)"
proof -
  let ?s = "(2::real) powi (expo x - 52)"
  let ?m = "x / ?s"
  have s: "0 < ?s" by simp
  have x: "x = ?m * ?s" by simp
  have "fl x - x = (of_int (rne ?m) - ?m) * ?s"
    using assms by (simp add: fl_nz left_diff_distrib)
  then have "\<bar>fl x - x\<bar> = \<bar>of_int (rne ?m) - ?m\<bar> * ?s" by (simp add: abs_mult)
  also have "\<dots> \<le> 1 / 2 * ?s" using rne_near [of ?m] by (rule mult_right_mono) simp
  also have "\<dots> = 2 powi (expo x - 53)"
  proof -
    have "(2::real) powi (expo x - 52) = 2 powi (expo x - 53 + 1)" by simp
    also have "\<dots> = 2 powi (expo x - 53) * 2" by (simp only: pow2_split) simp
    finally show ?thesis by simp
  qed
  finally show ?thesis .
qed

lemma fl_error: "\<bar>fl x - x\<bar> \<le> \<bar>x\<bar> / 2 ^ 53"
proof -
  have pos: "\<bar>fl x - x\<bar> \<le> x / 2 ^ 53" if "0 < x" for x
  proof -
    from expo_bounds [of x] that have "2 powi expo x \<le> x" by simp
    then have "2 powi expo x / 2 ^ 53 \<le> x / 2 ^ 53" by (simp add: divide_right_mono)
    moreover have "(2::real) powi (expo x - 53) = 2 powi expo x / 2 ^ 53"
      by (simp add: pow2_diff pow2_52)
    ultimately show ?thesis using fl_error_pos [OF that] by simp
  qed
  consider "x = 0" | "0 < x" | "0 < - x" by linarith
  then show ?thesis
  proof cases
    case 1 then show ?thesis by simp
  next
    case 2 from pos [OF 2] 2 show ?thesis by simp
  next
    case 3
    from pos [OF 3] have "\<bar>- fl x + x\<bar> \<le> - x / 2 ^ 53" by (simp add: fl_minus)
    moreover have "\<bar>- fl x + x\<bar> = \<bar>fl x - x\<bar>" by simp
    ultimately show ?thesis using 3 by simp
  qed
qed

lemma fl_fix_pos:
  assumes n: "0 < n" "n < 2 ^ 53"
  shows "fl (of_int n * 2 powi k) = of_int n * 2 powi k"
proof -
  let ?x = "of_int n * (2::real) powi k"
  have x: "0 < ?x" using n by simp
  define e where "e = expo ?x"
  have nz: "?x \<noteq> 0" using n by simp
  from expo_bounds [OF nz] x have b: "2 powi e \<le> ?x" unfolding e_def by linarith
  have "(of_int n :: real) < of_int (2 ^ 53)" using n(2) by (simp only: of_int_less_iff)
  then have "?x < 2 ^ 53 * 2 powi k" by simp
  also have "\<dots> = 2 powi (53 + k)" by (simp add: pow2_split pow2_52)
  finally have "(2::real) powi e < 2 powi (53 + k)" using b by linarith
  then have ek: "e - 52 \<le> k" by (simp add: pow2_less_iff)
  define j where "j = nat (k - (e - 52))"
  have k: "k = (e - 52) + int j" using ek by (simp add: j_def)
  have p: "(2::real) powi k = 2 powi (e - 52) * 2 ^ j"
    by (subst k) (simp only: pow2_split power_int_of_nat)
  have "?x / 2 powi (e - 52) = of_int n * 2 ^ j" by (simp add: p)
  also have "\<dots> = of_int (n * 2 ^ j)" by simp
  finally have m: "?x / 2 powi (e - 52) = of_int (n * 2 ^ j)" .
  have "fl ?x = of_int (rne (?x / 2 powi (e - 52))) * 2 powi (e - 52)"
    unfolding e_def using nz by (rule fl_nz)
  also have "\<dots> = of_int (n * 2 ^ j) * 2 powi (e - 52)" by (simp only: m rne_of_int)
  also have "\<dots> = ?x" by (simp add: p)
  finally show ?thesis .
qed

lemma fl_pow2 [simp]: "fl (2 powi k) = 2 powi k"
  using fl_fix_pos [of 1 k] by simp

lemma fl_fix:
  assumes "\<bar>n\<bar> \<le> 2 ^ 53"
  shows "fl (of_int n * 2 powi k) = of_int n * 2 powi k"
proof -
  have pos: "fl (of_int n * 2 powi k) = of_int n * 2 powi k" if "0 < n" "n \<le> 2 ^ 53" for n
  proof (cases "n = 2 ^ 53")
    case True
    have "of_int n * (2::real) powi k = 2 powi (53 + k)"
      by (simp add: True pow2_split pow2_52)
    then show ?thesis by simp
  next
    case False
    with that have "n < 2 ^ 53" by simp
    with that(1) show ?thesis by (rule fl_fix_pos)
  qed
  consider "n = 0" | "0 < n" | "0 < - n" by linarith
  then show ?thesis
  proof cases
    case 1 then show ?thesis by simp
  next
    case 2 with assms show ?thesis by (intro pos) simp_all
  next
    case 3
    with assms have "fl (of_int (- n) * 2 powi k) = of_int (- n) * 2 powi k"
      by (intro pos) simp_all
    then show ?thesis by (simp add: fl_minus)
  qed
qed

lemma fl_of_int: "\<bar>n\<bar> \<le> 2 ^ 53 \<Longrightarrow> fl (of_int n) = of_int n"
  using fl_fix [of n 0] by simp

lemma fl_idem [simp]: "fl (fl x) = fl x"
proof -
  have pos: "fl (fl x) = fl x" if "0 < x" for x
  proof -
    let ?r = "rne (x / 2 powi (expo x - 52))"
    from rne_mant_pos [OF that] have "\<bar>?r\<bar> \<le> 2 ^ 53" by simp
    from fl_fix [OF this, of "expo x - 52"] that show ?thesis by (simp add: fl_nz)
  qed
  consider "x = 0" | "0 < x" | "0 < - x" by linarith
  then show ?thesis
  proof cases
    case 1 then show ?thesis by simp
  next
    case 2 then show ?thesis by (rule pos)
  next
    case 3
    from pos [OF 3] show ?thesis by (simp add: fl_minus)
  qed
qed

text \<open>Evaluation of \<open>fl\<close> at a number whose binary exponent is known.\<close>

lemma fl_eqI:
  assumes lo: "2 ^ 52 \<le> \<bar>x\<bar> * 2 powi k" and hi: "\<bar>x\<bar> * 2 powi k < 2 ^ 53"
  shows "fl x = of_int (rne (x * 2 powi k)) / 2 powi k"
proof -
  have p: "(2::real) powi (52 - k) * 2 powi k = 2 ^ 52"
    by (simp add: pow2_split [symmetric] pow2_52)
  have q: "(2::real) powi (52 - k + 1) * 2 powi k = 2 ^ 53"
    by (simp add: pow2_split [symmetric] pow2_52)
  have k: "(0::real) < 2 powi k" by simp
  have "2 powi (52 - k) * 2 powi k \<le> \<bar>x\<bar> * 2 powi k" using lo by (simp only: p)
  then have 1: "2 powi (52 - k) \<le> \<bar>x\<bar>" using k by (simp only: mult_le_cancel_right_pos)
  have "\<bar>x\<bar> * 2 powi k < 2 powi (52 - k + 1) * 2 powi k" using hi by (simp only: q)
  then have 2: "\<bar>x\<bar> < 2 powi (52 - k + 1)" using k by (simp only: mult_less_cancel_right_pos)
  from expo_unique [OF 1 2] have e: "expo x = 52 - k" .
  have "0 < \<bar>x\<bar>" using 1 pow2_pos [of "52 - k"] by linarith
  then have x: "x \<noteq> 0" by simp
  have s: "(2::real) powi (- k) = 1 / 2 powi k" by (simp add: power_int_minus divide_inverse)
  show ?thesis using x by (simp add: fl_nz e s)
qed

lemma fl_numeral: "(numeral w :: int) \<le> 2 ^ 53 \<Longrightarrow> fl (numeral w) = numeral w"
  using fl_of_int [of "numeral w"] by simp

lemma fl_neg_numeral: "(numeral w :: int) \<le> 2 ^ 53 \<Longrightarrow> fl (- numeral w) = - numeral w"
  using fl_of_int [of "- numeral w"] by simp

lemma fl_1 [simp]: "fl 1 = 1"
  using fl_of_int [of 1] by simp

lemma fl_dyadic: "\<bar>n\<bar> \<le> 2 ^ 53 \<Longrightarrow> fl (of_int n / 2 ^ k) = of_int n / 2 ^ k"
  using fl_fix [of n "- int k"] by (simp add: power_int_minus divide_inverse)


section \<open>Grid size (C7)\<close>

lemma round_sqrt_eq:
  fixes r k :: nat
  assumes r: "0 < r" and lo: "r * r < k + r" and hi: "k \<le> r * r + r"
  shows "round (sqrt (real k)) = int r"
proof (rule round_unique)
  have "real k \<le> real (r * r + r)" using hi by (rule of_nat_mono)
  also have "\<dots> < (real r + 1 / 2)\<^sup>2" by (simp add: power2_eq_square algebra_simps)
  finally have "sqrt (real k) < sqrt ((real r + 1 / 2)\<^sup>2)" by (rule real_sqrt_less_mono)
  then have "sqrt (real k) < real r + 1 / 2" by simp
  then show "sqrt (real k) - 1 / 2 < real_of_int (int r)" by simp
  have "r * r + 1 \<le> k + r" using lo by simp
  then have "real (r * r + 1) \<le> real (k + r)" by (rule of_nat_mono)
  then have "(real r - 1 / 2)\<^sup>2 \<le> real k" by (simp add: power2_eq_square algebra_simps)
  then have "sqrt ((real r - 1 / 2)\<^sup>2) \<le> sqrt (real k)" by (rule real_sqrt_le_mono)
  moreover have "0 \<le> real r - 1 / 2" using r by simp
  ultimately have "real r - 1 / 2 \<le> sqrt (real k)" by simp
  then show "real_of_int (int r) \<le> sqrt (real k) + 1 / 2" by simp
qed

lemma round_sqrt_values:
  "round (sqrt (real (25::nat))) = 5" "round (sqrt (real (100::nat))) = 10"
  "round (sqrt (real (30::nat))) = 5" "round (sqrt (real (31::nat))) = 6"
  "round (sqrt (real (530::nat))) = 23" "round (sqrt (real (900::nat))) = 30"
  using round_sqrt_eq [of 5 25] round_sqrt_eq [of 10 100] round_sqrt_eq [of 5 30]
        round_sqrt_eq [of 6 31] round_sqrt_eq [of 23 530] round_sqrt_eq [of 30 900]
  by simp_all

text \<open>
  C7.  The grid size is \<open>clamp(round(sqrt(min(eventCount, maxEvents))), minGridSize,
  maxGridSize)\<close>, the clamp written out as \<open>max lo (min hi v)\<close>; for
  \<open>minGridSize \<le> maxGridSize\<close> it lies between the two bounds; whenever
  \<open>r\<close> is the integer nearest to the square root of the capped count (that is
  \<open>r\<^sup>2 - r < k \<le> r\<^sup>2 + r\<close>) and lies between the bounds, the grid size is \<open>r\<close>.  With
  the bounds 5 and 27 and 530 events at most, 25 events give the grid size 5, 100 events
  give 10, 31 events give 6, and 1000 events are capped to 530 and give 23; with 1000
  events at most, 900 events give the upper bound 27.
\<close>

theorem calculateGridSize_bounds:
  "calculateGridSize eventCount cfg
     = max (minGridSize cfg)
         (min (maxGridSize cfg) (round (sqrt (real (min eventCount (maxEvents cfg))))))
   \<and> (minGridSize cfg \<le> maxGridSize cfg \<longrightarrow>
        minGridSize cfg \<le> calculateGridSize eventCount cfg
        \<and> calculateGridSize eventCount cfg \<le> maxGridSize cfg)
   \<and> (\<forall>r. 0 < r \<and> r * r < min eventCount (maxEvents cfg) + r
            \<and> min eventCount (maxEvents cfg) \<le> r * r + r
            \<and> minGridSize cfg \<le> int r \<and> int r \<le> maxGridSize cfg
          \<longrightarrow> calculateGridSize eventCount cfg = int r)
   \<and> (minGridSize cfg = 5 \<and> maxGridSize cfg = 27 \<and> maxEvents cfg = 530 \<longrightarrow>
        calculateGridSize 25 cfg = 5 \<and> calculateGridSize 100 cfg = 10
        \<and> calculateGridSize 0 cfg = 5 \<and> calculateGridSize 30 cfg = 5
        \<and> calculateGridSize 31 cfg = 6 \<and> calculateGridSize 1000 cfg = 23)
   \<and> (minGridSize cfg = 5 \<and> maxGridSize cfg = 27 \<and> maxEvents cfg = 1000 \<longrightarrow>
        calculateGridSize 900 cfg = 27)"
proof (intro conjI allI impI)
  show f: "calculateGridSize eventCount cfg
     = max (minGridSize cfg)
         (min (maxGridSize cfg) (round (sqrt (real (min eventCount (maxEvents cfg))))))"
    by (simp add: calculateGridSize_def clamp_def Let_def)
  show "minGridSize cfg \<le> calculateGridSize eventCount cfg" by (simp add: f)
  show "calculateGridSize eventCount cfg \<le> maxGridSize cfg"
    if "minGridSize cfg \<le> maxGridSize cfg" using that by (simp add: f)
  show "calculateGridSize eventCount cfg = int r"
    if "0 < r \<and> r * r < min eventCount (maxEvents cfg) + r
            \<and> min eventCount (maxEvents cfg) \<le> r * r + r
            \<and> minGridSize cfg \<le> int r \<and> int r \<le> maxGridSize cfg" for r
  proof -
    from that have "round (sqrt (real (min eventCount (maxEvents cfg)))) = int r"
      by (intro round_sqrt_eq) simp_all
    with that show ?thesis by (simp add: f)
  qed
next
  assume c: "minGridSize cfg = 5 \<and> maxGridSize cfg = 27 \<and> maxEvents cfg = 530"
  show "calculateGridSize 25 cfg = 5" "calculateGridSize 100 cfg = 10"
    "calculateGridSize 0 cfg = 5" "calculateGridSize 30 cfg = 5"
    "calculateGridSize 31 cfg = 6" "calculateGridSize 1000 cfg = 23"
    using c round_sqrt_values
    by (simp_all add: calculateGridSize_def clamp_def Let_def)
next
  assume c: "minGridSize cfg = 5 \<and> maxGridSize cfg = 27 \<and> maxEvents cfg = 1000"
  show "calculateGridSize 900 cfg = 27"
    using c round_sqrt_values
    by (simp add: calculateGridSize_def clamp_def Let_def)
qed

theorem calculateGridSize_bounds_witness:
  "minGridSize LEWITT_CONFIG \<le> maxGridSize LEWITT_CONFIG
   \<and> minGridSize LEWITT_CONFIG = 5 \<and> maxGridSize LEWITT_CONFIG = 27
   \<and> maxEvents LEWITT_CONFIG = 530
   \<and> calculateGridSize 25 LEWITT_CONFIG = 5 \<and> calculateGridSize 100 LEWITT_CONFIG = 10
   \<and> calculateGridSize 0 LEWITT_CONFIG = 5 \<and> calculateGridSize 30 LEWITT_CONFIG = 5
   \<and> calculateGridSize 31 LEWITT_CONFIG = 6 \<and> calculateGridSize 1000 LEWITT_CONFIG = 23
   \<and> (0::nat) < 12 \<and> (12::nat) * 12 < min 150 (maxEvents LEWITT_CONFIG) + 12
   \<and> min 150 (maxEvents LEWITT_CONFIG) \<le> 12 * 12 + 12
   \<and> calculateGridSize 150 LEWITT_CONFIG = 12
   \<and> maxEvents (LEWITT_CONFIG\<lparr>maxEvents := 1000\<rparr>) = 1000
   \<and> calculateGridSize 900 (LEWITT_CONFIG\<lparr>maxEvents := 1000\<rparr>) = 27"
proof -
  have c: "minGridSize LEWITT_CONFIG = 5 \<and> maxGridSize LEWITT_CONFIG = 27
      \<and> maxEvents LEWITT_CONFIG = 530"
    by (simp add: LEWITT_CONFIG_def)
  have c': "minGridSize (LEWITT_CONFIG\<lparr>maxEvents := 1000\<rparr>) = 5
      \<and> maxGridSize (LEWITT_CONFIG\<lparr>maxEvents := 1000\<rparr>) = 27
      \<and> maxEvents (LEWITT_CONFIG\<lparr>maxEvents := 1000\<rparr>) = 1000"
    by (simp add: LEWITT_CONFIG_def)
  have r: "(0::nat) < 12 \<and> (12::nat) * 12 < min 150 (maxEvents LEWITT_CONFIG) + 12
      \<and> min 150 (maxEvents LEWITT_CONFIG) \<le> 12 * 12 + 12
      \<and> minGridSize LEWITT_CONFIG \<le> int 12 \<and> int 12 \<le> maxGridSize LEWITT_CONFIG"
    by (simp add: LEWITT_CONFIG_def)
  from calculateGridSize_bounds [of 150 LEWITT_CONFIG] r
  have 12: "calculateGridSize 150 LEWITT_CONFIG = 12" by (metis of_nat_numeral)
  from calculateGridSize_bounds [of 0 LEWITT_CONFIG] c
  have a: "calculateGridSize 25 LEWITT_CONFIG = 5 \<and> calculateGridSize 100 LEWITT_CONFIG = 10
        \<and> calculateGridSize 0 LEWITT_CONFIG = 5 \<and> calculateGridSize 30 LEWITT_CONFIG = 5
        \<and> calculateGridSize 31 LEWITT_CONFIG = 6 \<and> calculateGridSize 1000 LEWITT_CONFIG = 23"
    by blast
  from calculateGridSize_bounds [of 0 "LEWITT_CONFIG\<lparr>maxEvents := 1000\<rparr>"] c'
  have b: "calculateGridSize 900 (LEWITT_CONFIG\<lparr>maxEvents := 1000\<rparr>) = 27" by blast
  from a b c c' r 12 show ?thesis by simp
qed

section \<open>Hatch parameters (C4)\<close>

lemma spacing_default: "spacing (getHatchParams s) = clamp (18 - 14 * s) 3 24"
  by (simp add: getHatchParams_def LEWITT_CONFIG_def lerp_def Let_def)

lemma weight_default: "weight (getHatchParams s) = 6 / 10 + (24 / 10) * s"
  by (simp add: getHatchParams_def LEWITT_CONFIG_def lerp_def Let_def)

lemma alpha_default: "alpha (getHatchParams s) = round (40 + 160 * s)"
  by (simp add: getHatchParams_def LEWITT_CONFIG_def lerp_def Let_def)

lemma policy_weight_default: "policyViolationWeight s = weight (getHatchParams s) + 1"
  by (simp add: policyViolationWeight_def LEWITT_CONFIG_def)

text \<open>
  C4.  Under the default configuration and for a severity \<open>s\<close> in \<open>[0, 1]\<close>: the spacing
  lies in \<open>[3, 24]\<close>, the weight in \<open>[0.6, 3.0]\<close> (a policy-violation cell adds at most
  1.0), the alpha in \<open>[40, 200]\<close>; and for \<open>s \<le> s'\<close> in that range the spacing does not
  increase and the weight and the alpha do not decrease.
\<close>

theorem getHatchParams_bounds_monotone:
  "(0 \<le> s \<and> s \<le> 1 \<longrightarrow>
      3 \<le> spacing (getHatchParams s) \<and> spacing (getHatchParams s) \<le> 24
      \<and> 6 / 10 \<le> weight (getHatchParams s) \<and> weight (getHatchParams s) \<le> 3
      \<and> policyViolationWeight s \<le> weight (getHatchParams s) + 1
      \<and> 40 \<le> alpha (getHatchParams s) \<and> alpha (getHatchParams s) \<le> 200)
   \<and> (0 \<le> s \<and> s \<le> s' \<and> s' \<le> 1 \<longrightarrow>
      spacing (getHatchParams s') \<le> spacing (getHatchParams s)
      \<and> weight (getHatchParams s) \<le> weight (getHatchParams s')
      \<and> alpha (getHatchParams s) \<le> alpha (getHatchParams s'))"
proof (intro conjI impI)
  assume r: "0 \<le> s \<and> s \<le> 1"
  show "3 \<le> spacing (getHatchParams s)" by (simp add: spacing_default clamp_def)
  show "spacing (getHatchParams s) \<le> 24" by (simp add: spacing_default clamp_def)
  show "6 / 10 \<le> weight (getHatchParams s)" using r by (simp add: weight_default)
  show "weight (getHatchParams s) \<le> 3" using r by (simp add: weight_default)
  show "policyViolationWeight s \<le> weight (getHatchParams s) + 1"
    by (simp add: policy_weight_default)
  have "round (40::real) \<le> round (40 + 160 * s)" using r by (intro round_mono) simp
  then show "40 \<le> alpha (getHatchParams s)" by (simp add: alpha_default)
  have "round (40 + 160 * s) \<le> round (200::real)" using r by (intro round_mono) simp
  then show "alpha (getHatchParams s) \<le> 200" by (simp add: alpha_default)
next
  assume r: "0 \<le> s \<and> s \<le> s' \<and> s' \<le> 1"
  show "spacing (getHatchParams s') \<le> spacing (getHatchParams s)"
    using r by (simp add: spacing_default clamp_def min_def max_def)
  show "weight (getHatchParams s) \<le> weight (getHatchParams s')"
    using r by (simp add: weight_default)
  show "alpha (getHatchParams s) \<le> alpha (getHatchParams s')"
    unfolding alpha_default using r by (intro round_mono) simp
qed

theorem getHatchParams_bounds_monotone_witness:
  "(0::real) \<le> 1 / 4 \<and> (1 / 4 :: real) \<le> 3 / 4 \<and> (3 / 4 :: real) \<le> 1
   \<and> 3 \<le> spacing (getHatchParams (1 / 4)) \<and> spacing (getHatchParams (1 / 4)) \<le> 24
   \<and> alpha (getHatchParams (1 / 4)) \<le> 200
   \<and> spacing (getHatchParams (3 / 4)) \<le> spacing (getHatchParams (1 / 4))
   \<and> weight (getHatchParams (1 / 4)) \<le> weight (getHatchParams (3 / 4))
   \<and> alpha (getHatchParams (1 / 4)) \<le> alpha (getHatchParams (3 / 4))"
  using getHatchParams_bounds_monotone [of "1 / 4" "3 / 4"]
  by simp

section \<open>Severity (C3)\<close>

lemma clamp_unit: "clamp x 0 1 = (if x < 0 then 0 else if 1 < x then 1 else (x::real))"
  by (auto simp: clamp_def)

lemma max_tenth: "max (1 / 10) y = (if y < 1 / 10 then 1 / 10 else (y::real))"
  by auto

lemma calculateSeverity_spec:
  "calculateSeverity e =
     specSeverity (event e) (flagOf is_undo_like (flags e)) (flagOf is_redo_like (flags e))
       (flagOf is_paste_like (flags e)) (charsOf added_chars (delta e))
       (charsOf deleted_chars (delta e))"
  unfolding calculateSeverity_def specSeverity_def log1p_def Let_def clamp_unit max_tenth
  by simp

lemma severity_parseLine: "severity (parseLine r) = calculateSeverity (normalizeEvent r)"
  by (simp add: parseLine_def Let_def)

text \<open>The severity of an edit without flags, as a function of the character count.\<close>

lemma plain_edit_severity:
  assumes "event e = ''edit''" "\<not> flagOf is_undo_like (flags e)"
    "\<not> flagOf is_redo_like (flags e)" "\<not> flagOf is_paste_like (flags e)"
  shows "calculateSeverity e =
     max (1 / 10) (min 1 (sqrt (ln (1 + real (charsOf added_chars (delta e)
                                         + charsOf deleted_chars (delta e))) / ln 30001)))"
proof -
  let ?c = "charsOf added_chars (delta e) + charsOf deleted_chars (delta e)"
  let ?s = "sqrt (ln (1 + real ?c) / ln 30001)"
  have "0 \<le> ln (1 + real ?c) / ln 30001" by simp
  then have s: "0 \<le> ?s" by (rule real_sqrt_ge_zero)
  have "calculateSeverity e = max (1 / 10) (clamp ?s 0 1)"
    using assms by (simp add: calculateSeverity_def log1p_def Let_def)
  also have "clamp ?s 0 1 = min 1 ?s" using s by (simp add: clamp_def max_def min_def)
  finally show ?thesis .
qed

lemma ratio_ge_1: "30000 \<le> c \<Longrightarrow> 1 \<le> sqrt (ln (1 + real c) / ln 30001)"
proof -
  assume "30000 \<le> c"
  then have "(30001::real) \<le> 1 + real c" by simp
  then have "ln (30001::real) \<le> ln (1 + real c)" by simp
  then have "1 \<le> ln (1 + real c) / ln 30001" by (simp add: le_divide_eq)
  then show ?thesis by simp
qed

lemma ratio_173: "7 / 10 < sqrt (ln (1 + real (173::nat)) / ln 30001)"
  "sqrt (ln (1 + real (173::nat)) / ln 30001) < 1"
proof -
  have a: "ln (30001::real) < ln 30276" by simp
  have "ln ((174::real) ^ 2) = real 2 * ln 174" by (rule ln_realpow)
  moreover have "(174::real) ^ 2 = 30276" by simp
  ultimately have b: "ln (30276::real) = 2 * ln 174" by simp
  from a b have "ln (30001::real) < 2 * ln 174" by (simp only:)
  then have h: "1 / 2 < ln (174::real) / ln 30001" by (simp add: less_divide_eq)
  have "((7 / 10)\<^sup>2 :: real) < 1 / 2" by (simp add: power2_eq_square)
  with h have h2: "((7 / 10)\<^sup>2 :: real) < ln (174::real) / ln 30001" by linarith
  have "(7 / 10 :: real) = sqrt ((7 / 10)\<^sup>2)" by simp
  also have "\<dots> < sqrt (ln (174::real) / ln 30001)"
    using h2 by (rule real_sqrt_less_mono)
  finally show "7 / 10 < sqrt (ln (1 + real (173::nat)) / ln 30001)" by simp
  have "ln (174::real) < ln 30001" by simp
  then have "ln (174::real) / ln 30001 < 1" by (simp add: divide_less_eq)
  then have "sqrt (ln (174::real) / ln 30001) < 1" by simp
  then show "sqrt (ln (1 + real (173::nat)) / ln 30001) < 1" by simp
qed

lemma ratio_mono:
  "c \<le> c' \<Longrightarrow> sqrt (ln (1 + real c) / ln 30001) \<le> sqrt (ln (1 + real c') / ln 30001)"
  by (simp add: divide_right_mono)

text \<open>
  C3.  The severity follows the priority rules of the specification, first match
  winning, on every event object and in particular on the normalizer's output for a raw
  record, where \<open>parseJsonl\<close> stores it as \<open>severity\<close>.  A policy violation gives 1, an
  edit with no flag set and no changed character gives exactly 0.1, and a paste-like
  edit that is neither undo-like nor redo-like gives 0.85 whatever its delta.  An edit
  with no flag set and \<open>c\<close> changed characters gives
  \<open>max 0.1 (min 1 (sqrt (ln (1 + c) / ln 30001)))\<close>: a value in \<open>[0.1, 1]\<close> that does not
  decrease with \<open>c\<close>, is exactly 1 from 30000 characters on, and lies strictly between
  0.7 and 1 for 173 characters.
\<close>

theorem severity_rules:
  "calculateSeverity e =
       specSeverity (event e) (flagOf is_undo_like (flags e)) (flagOf is_redo_like (flags e))
         (flagOf is_paste_like (flags e)) (charsOf added_chars (delta e))
         (charsOf deleted_chars (delta e))
   \<and> calculateSeverity (normalizeEvent r) =
       specSeverity (raw_event r)
         (case raw_flags r of None \<Rightarrow> False | Some f \<Rightarrow> orFalse (raw_is_undo_like f))
         (case raw_flags r of None \<Rightarrow> False | Some f \<Rightarrow> orFalse (raw_is_redo_like f))
         (case raw_flags r of None \<Rightarrow> False | Some f \<Rightarrow> orFalse (raw_is_paste_like f))
         (case raw_delta r of None \<Rightarrow> 0 | Some d \<Rightarrow> orZero (raw_added_chars d))
         (case raw_delta r of None \<Rightarrow> 0 | Some d \<Rightarrow> orZero (raw_deleted_chars d))
   \<and> severity (parseLine r) = calculateSeverity (normalizeEvent r)
   \<and> (event e = ''policy_violation'' \<longrightarrow> calculateSeverity e = 1)
   \<and> (event e = ''edit'' \<and> \<not> flagOf is_undo_like (flags e) \<and> \<not> flagOf is_redo_like (flags e)
        \<and> \<not> flagOf is_paste_like (flags e)
        \<and> charsOf added_chars (delta e) = 0 \<and> charsOf deleted_chars (delta e) = 0
       \<longrightarrow> calculateSeverity e = 1 / 10)
   \<and> (event e = ''edit'' \<and> \<not> flagOf is_undo_like (flags e) \<and> \<not> flagOf is_redo_like (flags e)
        \<and> flagOf is_paste_like (flags e)
       \<longrightarrow> calculateSeverity e = 85 / 100)
   \<and> (event e = ''edit'' \<and> \<not> flagOf is_undo_like (flags e) \<and> \<not> flagOf is_redo_like (flags e)
        \<and> \<not> flagOf is_paste_like (flags e)
       \<longrightarrow> calculateSeverity e
             = max (1 / 10) (min 1 (sqrt (ln (1 + real (charsOf added_chars (delta e)
                                     + charsOf deleted_chars (delta e))) / ln 30001)))
           \<and> 1 / 10 \<le> calculateSeverity e \<and> calculateSeverity e \<le> 1
           \<and> (30000 \<le> charsOf added_chars (delta e) + charsOf deleted_chars (delta e)
                \<longrightarrow> calculateSeverity e = 1)
           \<and> (charsOf added_chars (delta e) + charsOf deleted_chars (delta e) = 173
                \<longrightarrow> 7 / 10 < calculateSeverity e \<and> calculateSeverity e < 1)
           \<and> (event e' = ''edit'' \<and> \<not> flagOf is_undo_like (flags e')
                \<and> \<not> flagOf is_redo_like (flags e') \<and> \<not> flagOf is_paste_like (flags e')
                \<and> charsOf added_chars (delta e) + charsOf deleted_chars (delta e)
                    \<le> charsOf added_chars (delta e') + charsOf deleted_chars (delta e')
                \<longrightarrow> calculateSeverity e \<le> calculateSeverity e'))"
proof -
  have a: "calculateSeverity (normalizeEvent r) =
     specSeverity (raw_event r)
       (case raw_flags r of None \<Rightarrow> False | Some f \<Rightarrow> orFalse (raw_is_undo_like f))
       (case raw_flags r of None \<Rightarrow> False | Some f \<Rightarrow> orFalse (raw_is_redo_like f))
       (case raw_flags r of None \<Rightarrow> False | Some f \<Rightarrow> orFalse (raw_is_paste_like f))
       (case raw_delta r of None \<Rightarrow> 0 | Some d \<Rightarrow> orZero (raw_added_chars d))
       (case raw_delta r of None \<Rightarrow> 0 | Some d \<Rightarrow> orZero (raw_deleted_chars d))"
    unfolding calculateSeverity_spec
    by (simp add: normalizeEvent_def flagOf_def charsOf_def normalizeFlags_def
          normalizeDelta_def split: option.splits)
  have b: "event e = ''policy_violation'' \<longrightarrow> calculateSeverity e = 1"
    by (simp add: calculateSeverity_def)
  have c: "event e = ''edit'' \<and> \<not> flagOf is_undo_like (flags e) \<and> \<not> flagOf is_redo_like (flags e)
        \<and> \<not> flagOf is_paste_like (flags e)
        \<and> charsOf added_chars (delta e) = 0 \<and> charsOf deleted_chars (delta e) = 0
       \<longrightarrow> calculateSeverity e = 1 / 10"
    by (simp add: calculateSeverity_def log1p_def clamp_def)
  have d: "event e = ''edit'' \<and> \<not> flagOf is_undo_like (flags e) \<and> \<not> flagOf is_redo_like (flags e)
        \<and> flagOf is_paste_like (flags e)
       \<longrightarrow> calculateSeverity e = 85 / 100"
    by (simp add: calculateSeverity_def)
  have f: "calculateSeverity e
             = max (1 / 10) (min 1 (sqrt (ln (1 + real (charsOf added_chars (delta e)
                                     + charsOf deleted_chars (delta e))) / ln 30001)))
           \<and> 1 / 10 \<le> calculateSeverity e \<and> calculateSeverity e \<le> 1
           \<and> (30000 \<le> charsOf added_chars (delta e) + charsOf deleted_chars (delta e)
                \<longrightarrow> calculateSeverity e = 1)
           \<and> (charsOf added_chars (delta e) + charsOf deleted_chars (delta e) = 173
                \<longrightarrow> 7 / 10 < calculateSeverity e \<and> calculateSeverity e < 1)
           \<and> (event e' = ''edit'' \<and> \<not> flagOf is_undo_like (flags e')
                \<and> \<not> flagOf is_redo_like (flags e') \<and> \<not> flagOf is_paste_like (flags e')
                \<and> charsOf added_chars (delta e) + charsOf deleted_chars (delta e)
                    \<le> charsOf added_chars (delta e') + charsOf deleted_chars (delta e')
                \<longrightarrow> calculateSeverity e \<le> calculateSeverity e')"
    if h: "event e = ''edit'' \<and> \<not> flagOf is_undo_like (flags e)
        \<and> \<not> flagOf is_redo_like (flags e) \<and> \<not> flagOf is_paste_like (flags e)"
  proof (intro conjI impI)
    let ?c = "charsOf added_chars (delta e) + charsOf deleted_chars (delta e)"
    show v: "calculateSeverity e = max (1 / 10) (min 1 (sqrt (ln (1 + real ?c) / ln 30001)))"
      using h by (intro plain_edit_severity) simp_all
    show "1 / 10 \<le> calculateSeverity e" by (simp add: v)
    show "calculateSeverity e \<le> 1" by (simp add: v)
    show "calculateSeverity e = 1" if "30000 \<le> ?c"
      using ratio_ge_1 [OF that] by (simp add: v)
    show "7 / 10 < calculateSeverity e" if "?c = 173"
      using ratio_173 (1) that by (simp add: v)
    show "calculateSeverity e < 1" if "?c = 173"
      using ratio_173 (2) that by (simp add: v)
    show "calculateSeverity e \<le> calculateSeverity e'"
      if h': "event e' = ''edit'' \<and> \<not> flagOf is_undo_like (flags e')
                \<and> \<not> flagOf is_redo_like (flags e') \<and> \<not> flagOf is_paste_like (flags e')
                \<and> ?c \<le> charsOf added_chars (delta e') + charsOf deleted_chars (delta e')"
    proof -
      let ?c' = "charsOf added_chars (delta e') + charsOf deleted_chars (delta e')"
      have v': "calculateSeverity e'
           = max (1 / 10) (min 1 (sqrt (ln (1 + real ?c') / ln 30001)))"
        using h' by (intro plain_edit_severity) simp_all
      have "sqrt (ln (1 + real ?c) / ln 30001) \<le> sqrt (ln (1 + real ?c') / ln 30001)"
        using h' by (intro ratio_mono) simp
      then show ?thesis unfolding v v' by (intro max.mono min.mono order_refl)
    qed
  qed
  from a b c d f calculateSeverity_spec [of e] severity_parseLine [of r] show ?thesis
    by (intro conjI impI) blast+
qed

lemma flags_of_examples:
  "flags (normalizeEvent exPolicy) = None"
  "flags (normalizeEvent exEmptyEdit) = None"
  "flags (normalizeEvent exPasteEdit)
     = Some \<lparr> is_paste_like = True, is_undo_like = False, is_redo_like = False \<rparr>"
  "flags (normalizeEvent exBigEdit) = None"
  "flags (normalizeEvent exHugeEdit)
     = Some \<lparr> is_paste_like = False, is_undo_like = False, is_redo_like = False \<rparr>"
  "flags (normalizeEvent exMidEdit) = None"
  "delta (normalizeEvent exEmptyEdit)
     = Some \<lparr> added_chars = 0, deleted_chars = 0, added_lines = 0, deleted_lines = 0 \<rparr>"
  "delta (normalizeEvent exBigEdit)
     = Some \<lparr> added_chars = 29990, deleted_chars = 10, added_lines = 0, deleted_lines = 0 \<rparr>"
  "delta (normalizeEvent exHugeEdit)
     = Some \<lparr> added_chars = 40000, deleted_chars = 0, added_lines = 0, deleted_lines = 0 \<rparr>"
  "delta (normalizeEvent exMidEdit)
     = Some \<lparr> added_chars = 170, deleted_chars = 3, added_lines = 0, deleted_lines = 0 \<rparr>"
  "event (normalizeEvent exPolicy) = ''policy_violation''"
  "event (normalizeEvent exEmptyEdit) = ''edit''"
  "event (normalizeEvent exPasteEdit) = ''edit''"
  "event (normalizeEvent exBigEdit) = ''edit''"
  "event (normalizeEvent exHugeEdit) = ''edit''"
  "event (normalizeEvent exMidEdit) = ''edit''"
  by (simp_all add: normalizeEvent_def normalizeFlags_def normalizeDelta_def orFalse_def
        orZero_def exPolicy_def exEmptyEdit_def exPasteEdit_def exBigEdit_def
        exHugeEdit_def exMidEdit_def)

theorem severity_rules_witness:
  "severity (parseLine exPolicy) = 1
   \<and> severity (parseLine exEmptyEdit) = 1 / 10
   \<and> severity (parseLine exPasteEdit) = 85 / 100
   \<and> severity (parseLine exBigEdit) = 1
   \<and> severity (parseLine exHugeEdit) = 1
   \<and> 7 / 10 < severity (parseLine exMidEdit) \<and> severity (parseLine exMidEdit) < 1
   \<and> severity (parseLine exEmptyEdit) \<le> severity (parseLine exMidEdit)
   \<and> severity (parseLine exMidEdit) \<le> severity (parseLine exBigEdit)"
proof -
  have 1: "calculateSeverity (normalizeEvent exPolicy) = 1"
    using severity_rules [of "normalizeEvent exPolicy" exPolicy "normalizeEvent exPolicy"]
    by (simp add: flags_of_examples)
  have 2: "calculateSeverity (normalizeEvent exEmptyEdit) = 1 / 10"
    using severity_rules [of "normalizeEvent exEmptyEdit" exEmptyEdit "normalizeEvent exEmptyEdit"]
    by (simp add: flags_of_examples flagOf_def charsOf_def)
  have 3: "calculateSeverity (normalizeEvent exPasteEdit) = 85 / 100"
    using severity_rules [of "normalizeEvent exPasteEdit" exPasteEdit "normalizeEvent exPasteEdit"]
    by (simp add: flags_of_examples flagOf_def)
  have 4: "calculateSeverity (normalizeEvent exBigEdit) = 1"
    using severity_rules [of "normalizeEvent exBigEdit" exBigEdit "normalizeEvent exBigEdit"]
    by (simp add: flags_of_examples flagOf_def charsOf_def)
  have 5: "calculateSeverity (normalizeEvent exHugeEdit) = 1"
    using severity_rules [of "normalizeEvent exHugeEdit" exHugeEdit "normalizeEvent exHugeEdit"]
    by (simp add: flags_of_examples flagOf_def charsOf_def)
  have 6: "7 / 10 < calculateSeverity (normalizeEvent exMidEdit)
      \<and> calculateSeverity (normalizeEvent exMidEdit) < 1"
    using severity_rules [of "normalizeEvent exMidEdit" exMidEdit "normalizeEvent exMidEdit"]
    by (simp add: flags_of_examples flagOf_def charsOf_def)
  have 7: "calculateSeverity (normalizeEvent exEmptyEdit)
      \<le> calculateSeverity (normalizeEvent exMidEdit)"
    using severity_rules [of "normalizeEvent exEmptyEdit" exEmptyEdit "normalizeEvent exMidEdit"]
    by (simp add: flags_of_examples flagOf_def charsOf_def)
  have 8: "calculateSeverity (normalizeEvent exMidEdit)
      \<le> calculateSeverity (normalizeEvent exBigEdit)"
    using severity_rules [of "normalizeEvent exMidEdit" exMidEdit "normalizeEvent exBigEdit"]
    by (simp add: flags_of_examples flagOf_def charsOf_def)
  from 1 2 3 4 5 6 7 8 show ?thesis by (simp add: severity_parseLine)
qed
section \<open>Rectangle-with-hole clip (C6)\<close>

lemma fl_dyadics:
  "fl (1 / 2) = 1 / 2" "fl (1 / 4) = 1 / 4" "fl (3 / 4) = 3 / 4" "fl (3 / 2) = 3 / 2"
  "fl (5 / 2) = 5 / 2" "fl (7 / 8) = 7 / 8" "fl (1 / 512) = 1 / 512"
  "fl (1 / 8192) = 1 / 8192" "fl (1 / 16384) = 1 / 16384"
  "fl (8193 / 8192) = 8193 / 8192" "fl (8191 / 8192) = 8191 / 8192"
  "fl (8193 / 16384) = 8193 / 16384" "fl (16385 / 8192) = 16385 / 8192"
  "fl (8191 / 16384) = 8191 / 16384" "fl (1 / 8) = 1 / 8" "fl (3 / 8) = 3 / 8"
  "fl (23 / 8) = 23 / 8" "fl (21 / 8) = 21 / 8"
  using fl_dyadic [of 1 1] fl_dyadic [of 1 2] fl_dyadic [of 3 2] fl_dyadic [of 3 1]
    fl_dyadic [of 5 1] fl_dyadic [of 7 3] fl_dyadic [of 1 9] fl_dyadic [of 1 13]
    fl_dyadic [of 1 14] fl_dyadic [of 8193 13] fl_dyadic [of 8191 13] fl_dyadic [of 8193 14]
    fl_dyadic [of 16385 13] fl_dyadic [of 8191 14] fl_dyadic [of 1 3] fl_dyadic [of 3 3]
    fl_dyadic [of 23 3] fl_dyadic [of 21 3]
  by simp_all

text \<open>Where the numbers of the literals \<open>0.0001\<close>, \<open>0.001\<close> and \<open>0.999\<close> lie.\<close>

lemma thresholds:
  "1 / 16384 \<le> fl (1 / 10000)" "fl (1 / 10000) \<le> 1 / 8192"
  "fl (1 / 1000) \<le> 1 / 512" "7 / 8 \<le> fl (999 / 1000)"
  using fl_mono [of "1 / 16384" "1 / 10000"] fl_mono [of "1 / 10000" "1 / 8192"]
    fl_mono [of "1 / 1000" "1 / 512"] fl_mono [of "7 / 8" "999 / 1000"]
  by (simp_all add: fl_dyadics)

lemmas darith = dadd_def dsub_def dmul_def ddiv_def fl_minus fl_numeral fl_dyadics

lemma corner_hits:
  "holeIntersections (- 1) 1 1 (- 1) exHole
     = [\<lparr> hit_t = 1 / 2, hit_x = 0, hit_y = 0 \<rparr>, \<lparr> hit_t = 1 / 2, hit_x = 0, hit_y = 0 \<rparr>]"
  by (simp add: holeIntersections_def vEdgeHit_def hEdgeHit_def exHole_def Let_def darith)

lemma cut_hits:
  "holeIntersections (- 1) (8193 / 8192) 1 (- (8191 / 8192)) exHole
     = [\<lparr> hit_t = 1 / 2, hit_x = 0, hit_y = 1 / 8192 \<rparr>,
        \<lparr> hit_t = 8193 / 16384, hit_x = 1 / 8192, hit_y = 0 \<rparr>]"
  by (simp add: holeIntersections_def vEdgeHit_def hEdgeHit_def exHole_def Let_def darith)

lemma through_hits:
  "holeIntersections 1 (- 1) 1 3 exHole
     = [\<lparr> hit_t = 1 / 4, hit_x = 1, hit_y = 0 \<rparr>, \<lparr> hit_t = 3 / 4, hit_x = 1, hit_y = 2 \<rparr>]"
  by (simp add: holeIntersections_def vEdgeHit_def hEdgeHit_def exHole_def Let_def darith)

lemma diag_hits:
  "holeIntersections (- 1) 0 3 2 exHole
     = [\<lparr> hit_t = 1 / 4, hit_x = 0, hit_y = 1 / 2 \<rparr>, \<lparr> hit_t = 3 / 4, hit_x = 2, hit_y = 3 / 2 \<rparr>]"
  by (simp add: holeIntersections_def vEdgeHit_def hEdgeHit_def exHole_def Let_def darith)

lemma corner_unique:
  "uniqueHits (holeIntersections (- 1) 1 1 (- 1) exHole)
     = [\<lparr> hit_t = 1 / 2, hit_x = 0, hit_y = 0 \<rparr>]"
  by (simp add: corner_hits uniqueHits_def darith)

lemma cut_unique:
  "uniqueHits (holeIntersections (- 1) (8193 / 8192) 1 (- (8191 / 8192)) exHole)
     = [\<lparr> hit_t = 1 / 2, hit_x = 0, hit_y = 1 / 8192 \<rparr>]"
  using thresholds by (simp add: cut_hits uniqueHits_def darith)

lemma through_unique:
  "uniqueHits (holeIntersections 1 (- 1) 1 3 exHole)
     = [\<lparr> hit_t = 1 / 4, hit_x = 1, hit_y = 0 \<rparr>, \<lparr> hit_t = 3 / 4, hit_x = 1, hit_y = 2 \<rparr>]"
  using thresholds by (simp add: through_hits uniqueHits_def darith)

lemma diag_unique:
  "uniqueHits (holeIntersections (- 1) 0 3 2 exHole)
     = [\<lparr> hit_t = 1 / 4, hit_x = 0, hit_y = 1 / 2 \<rparr>, \<lparr> hit_t = 3 / 4, hit_x = 2, hit_y = 3 / 2 \<rparr>]"
  using thresholds by (simp add: diag_hits uniqueHits_def darith)

text \<open>
  C6.  The hole is the square with the corners \<open>(0, 0)\<close> and \<open>(2, 2)\<close>.  The segment from
  \<open>(-1, 1)\<close> to \<open>(1, -1)\<close> touches it in the corner \<open>(0, 0)\<close> only; both endpoints are
  outside.  The left edge and the top edge each report the corner at \<open>t = 1/2\<close>, the
  duplicate is removed, and the branch for one intersection draws the part from the
  first endpoint to the corner only: the part from the corner to \<open>(1, -1)\<close>, whose
  endpoint is outside the hole too, is not drawn.  The same happens to the segment
  from \<open>(-1, 1 + 1/8192)\<close> to \<open>(1, -1 + 1/8192)\<close>, which cuts the corner: its two
  intersections are \<open>1/16384\<close> apart in \<open>t\<close> and count as one.  For comparison: the
  vertical segment from \<open>(1, -1)\<close> to \<open>(1, 3)\<close> and the slanted one from \<open>(-1, 0)\<close> to
  \<open>(3, 2)\<close> cross the hole with two intersections, and both outer parts are drawn; a
  segment that does not meet the hole is drawn whole; a segment inside the hole is not
  drawn; with one endpoint inside, the part outside is drawn.
\<close>

theorem hole_touch_drops_second_half:
  "\<not> insideRect (- 1) 1 0 0 2 2 \<and> \<not> insideRect 1 (- 1) 0 0 2 2
   \<and> holeIntersections (- 1) 1 1 (- 1) exHole
       = [\<lparr> hit_t = 1 / 2, hit_x = 0, hit_y = 0 \<rparr>, \<lparr> hit_t = 1 / 2, hit_x = 0, hit_y = 0 \<rparr>]
   \<and> uniqueHits (holeIntersections (- 1) 1 1 (- 1) exHole)
       = [\<lparr> hit_t = 1 / 2, hit_x = 0, hit_y = 0 \<rparr>]
   \<and> drawLineWithRectHole (- 1) 1 1 (- 1) exHole = [Line (- 1) 1 0 0]
   \<and> \<not> insideRect (- 1) (8193 / 8192) 0 0 2 2 \<and> \<not> insideRect 1 (- (8191 / 8192)) 0 0 2 2
   \<and> holeIntersections (- 1) (8193 / 8192) 1 (- (8191 / 8192)) exHole
       = [\<lparr> hit_t = 1 / 2, hit_x = 0, hit_y = 1 / 8192 \<rparr>,
          \<lparr> hit_t = 8193 / 16384, hit_x = 1 / 8192, hit_y = 0 \<rparr>]
   \<and> drawLineWithRectHole (- 1) (8193 / 8192) 1 (- (8191 / 8192)) exHole
       = [Line (- 1) (8193 / 8192) 0 (1 / 8192)]
   \<and> holeIntersections 1 (- 1) 1 3 exHole
       = [\<lparr> hit_t = 1 / 4, hit_x = 1, hit_y = 0 \<rparr>, \<lparr> hit_t = 3 / 4, hit_x = 1, hit_y = 2 \<rparr>]
   \<and> drawLineWithRectHole 1 (- 1) 1 3 exHole = [Line 1 (- 1) 1 0, Line 1 2 1 3]
   \<and> drawLineWithRectHole (- 1) 0 3 2 exHole = [Line (- 1) 0 0 (1 / 2), Line 2 (3 / 2) 3 2]
   \<and> drawLineWithRectHole (- 1) 3 3 (5 / 2) exHole = [Line (- 1) 3 3 (5 / 2)]
   \<and> drawLineWithRectHole (1 / 2) 1 (3 / 2) 1 exHole = []
   \<and> drawLineWithRectHole 1 1 3 1 exHole = [Line 2 1 3 1]
   \<and> drawLineWithRectHole 1 3 1 1 exHole = [Line 1 3 1 2]"
proof -
  have i: "\<not> insideRect (- 1) 1 0 0 2 2" "\<not> insideRect 1 (- 1) 0 0 2 2"
    "\<not> insideRect (- 1) (8193 / 8192) 0 0 2 2" "\<not> insideRect 1 (- (8191 / 8192)) 0 0 2 2"
    by (simp_all add: insideRect_def)
  have j: "rect_x exHole = 0" "rect_y exHole = 0" "rect_w exHole = 2" "rect_h exHole = 2"
    by (simp_all add: exHole_def)
  have 1: "drawLineWithRectHole (- 1) 1 1 (- 1) exHole = [Line (- 1) 1 0 0]"
    by (simp add: drawLineWithRectHole_def corner_unique j i Let_def) (simp add: corner_hits)
  have 2: "drawLineWithRectHole (- 1) (8193 / 8192) 1 (- (8191 / 8192)) exHole
       = [Line (- 1) (8193 / 8192) 0 (1 / 8192)]"
    by (simp add: drawLineWithRectHole_def cut_unique j i Let_def) (simp add: cut_hits)
  have 3: "drawLineWithRectHole 1 (- 1) 1 3 exHole = [Line 1 (- 1) 1 0, Line 1 2 1 3]"
    using thresholds
    by (simp add: drawLineWithRectHole_def through_unique j insideRect_def Let_def darith)
       (simp add: through_hits)
  have 4: "drawLineWithRectHole (- 1) 0 3 2 exHole = [Line (- 1) 0 0 (1 / 2), Line 2 (3 / 2) 3 2]"
    using thresholds
    by (simp add: drawLineWithRectHole_def diag_unique j insideRect_def Let_def darith)
       (simp add: diag_hits)
  have 5: "drawLineWithRectHole (- 1) 3 3 (5 / 2) exHole = [Line (- 1) 3 3 (5 / 2)]"
    by (simp add: drawLineWithRectHole_def insideRect_def exHole_def holeIntersections_def
          vEdgeHit_def hEdgeHit_def Let_def darith)
  have 6: "drawLineWithRectHole (1 / 2) 1 (3 / 2) 1 exHole = []"
    by (simp add: drawLineWithRectHole_def insideRect_def exHole_def darith)
  have 7: "drawLineWithRectHole 1 1 3 1 exHole = [Line 2 1 3 1]"
    by (simp add: drawLineWithRectHole_def insideRect_def exHole_def holeIntersections_def
          vEdgeHit_def hEdgeHit_def Let_def uniqueHits_def darith)
  have 8: "drawLineWithRectHole 1 3 1 1 exHole = [Line 1 3 1 2]"
    by (simp add: drawLineWithRectHole_def insideRect_def exHole_def holeIntersections_def
          vEdgeHit_def hEdgeHit_def Let_def uniqueHits_def darith)
  from i 1 2 3 4 5 6 7 8 corner_hits corner_unique cut_hits through_hits show ?thesis
    by (intro conjI)
qed

section \<open>Empty cells (C1)\<close>


lemma drawCell_null:
  "drawCell hst None cellX cellY cellW cellH rng scale collectPoints = ([], rng, Inl TypeError)"
  by (simp add: drawCell_def logAiPromptLength_def split: prod.splits)

lemma drawCells_null_first:
  "ps \<noteq> [] \<Longrightarrow> eventAt prepared idx = None \<Longrightarrow>
   drawCells hst ps idx prepared margin cellW cellH rng scale = ([], rng, Inl TypeError, [])"
  by (cases ps) (auto simp: drawCell_null)

lemma length_cellOrder: "length (cellOrder n) = n * n"
  by (simp add: cellOrder_def length_concat comp_def sum_list_triv)

lemma prepareEvents_Nil: "prepareEvents [] cfg = ([], [])"
  by (simp add: prepareEvents_def markEvents_def sortedRefs_def selectRefs_def
        orderRefs_def uniformSample_def Let_def)

lemma gridSize_zero: "calculateGridSize 0 LEWITT_CONFIG = 5"
  by (simp add: calculateGridSize_def LEWITT_CONFIG_def clamp_def)

text \<open>
  C1.  For an empty event set the grid size is clamped to \<open>minGridSize\<close> (5 under the
  default configuration), and the claim is that every position without an event is
  drawn as a border rectangle with no boundary points, without an error.  The source
  does otherwise: \<open>drawCell\<close> evaluates \<open>console.log(event.aiPromptLength)\<close> before it
  draws the border and before its own \<open>if (!event) return\<close>, so for \<open>event = null\<close> it
  throws a \<open>TypeError\<close> having drawn nothing, and the render of an empty event set
  stops at the first cell, after \<open>strokeCap\<close> and \<open>noFill\<close>.
\<close>

theorem empty_render_throws:
  "calculateGridSize 0 LEWITT_CONFIG = 5
   \<and> drawCell hst None cellX cellY cellW cellH rng scale collectPoints
       = ([], rng, Inl TypeError)
   \<and> drawLeWittGrid hst now [] canvasWidth canvasHeight LEWITT_CONFIG scale mode
       = ([StrokeCapSquare, NoFill], Inl TypeError, [])"
proof -
  have ne: "cellOrder 5 \<noteq> []"
    using length_cellOrder [of 5] by auto
  have "drawLeWittGrid hst now [] canvasWidth canvasHeight LEWITT_CONFIG scale mode
       = ([StrokeCapSquare, NoFill], Inl TypeError, [])"
    by (simp add: drawLeWittGrid_def prepareEvents_Nil gridSize_zero
          drawCells_null_first [OF ne] eventAt_def Let_def)
  then show ?thesis by (simp add: gridSize_zero drawCell_null)
qed


section \<open>Cell traversal (C8)\<close>


lemma event_parseLine [simp]: "event (parseLine r) = raw_event r"
  by (simp add: parseLine_def normalizeEvent_def Let_def)

lemma ts_parseLine [simp]: "ts (parseLine r) = raw_ts r"
  by (simp add: parseLine_def normalizeEvent_def Let_def)

lemma prompt_parseLine [simp]: "prompt (parseLine r) = None"
  by (simp add: parseLine_def Let_def)

lemma to_parseLine [simp]: "to (parseLine r) = None"
  by (simp add: parseLine_def Let_def)

lemma aiPromptLength_parseLine [simp]: "aiPromptLength (parseLine r) = None"
  by (simp add: parseLine_def Let_def)

lemma hasSnapshotAfter_parseLine [simp]: "hasSnapshotAfter (parseLine r) = None"
  by (simp add: parseLine_def Let_def)

lemma origin_mode_parseLine [simp]: "origin_mode (parseLine r) = raw_origin_mode r"
  by (simp add: parseLine_def normalizeEvent_def Let_def)

lemma delta_parseLine [simp]: "delta (parseLine r) = map_option normalizeDelta (raw_delta r)"
  by (simp add: parseLine_def normalizeEvent_def Let_def)

lemma prepare_one_snapshot:
  "prepareEvents [parseLine exSnapshot] LEWITT_CONFIG = ([0], [parseLine exSnapshot])"
  by (simp add: prepareEvents_def markEvents_def sortedRefs_def selectRefs_def
        orderRefs_def Let_def exSnapshot_def LEWITT_CONFIG_def)

lemma gridSize_one: "calculateGridSize (Suc 0) LEWITT_CONFIG = 5"
  by (simp add: calculateGridSize_def LEWITT_CONFIG_def clamp_def)

lemma spacing_ge_3: "3 \<le> spacing (getHatchParams s)"
  by (simp add: getHatchParams_def LEWITT_CONFIG_def clamp_def Let_def)

lemma drawHatchLines_returns:
  "spc * scale \<noteq> 0 \<Longrightarrow>
   snd (drawHatchLines hst cellX cellY cellW cellH angleDeg spc wt al scale eraseRatio) = Inr ()"
  by (simp add: drawHatchLines_def dmul_def Let_def)

lemma crossHatch_returns:
  "spc * scale \<noteq> 0 \<Longrightarrow>
   snd (crossHatch hst angs cellX cellY cellW cellH spc wt al scale) = Inr ()"
proof (induction angs)
  case Nil
  then show ?case by simp
next
  case (Cons a angs)
  from drawHatchLines_returns [OF Cons.prems, of hst cellX cellY cellW cellH a wt al 0]
  obtain c where c: "drawHatchLines hst cellX cellY cellW cellH a spc wt al scale 0 = (c, Inr ())"
    by (metis prod.collapse)
  from Cons.IH [OF Cons.prems]
  obtain c' where c': "crossHatch hst angs cellX cellY cellW cellH spc wt al scale = (c', Inr ())"
    by (metis prod.collapse)
  show ?case by (simp add: c c')
qed

lemma drawCell_returns:
  assumes sc: "scale \<noteq> 0"
  shows "\<exists>cmds rng1 pts.
     drawCell hst (Some e) cellX cellY cellW cellH rng scale collectPoints
       = (cmds, rng1, Inr pts)"
proof -
  have nz: "spacing (getHatchParams (severity e)) * scale \<noteq> 0"
    using spacing_ge_3 [of "severity e"] sc by auto
  obtain bw ba where b: "cellBorder (Some e) scale = (bw, ba)" by (metis prod.collapse)
  show ?thesis
  proof (cases "event e = ''policy_violation''")
    case True
    from crossHatch_returns [OF nz]
    obtain c where "crossHatch hst (policy_violation (angles (hatching LEWITT_CONFIG)))
        cellX cellY cellW cellH (spacing (getHatchParams (severity e)))
        (policyViolationWeight (severity e))
        (real_of_int (alpha (getHatchParams (severity e)))) scale = (c, Inr ())"
      by (metis prod.collapse)
    then have "\<exists>c. drawPolicyViolationCell hst cellX cellY cellW cellH (severity e) scale = (c, Inr ())"
      by (simp add: drawPolicyViolationCell_def Let_def)
    then obtain c where
      "drawPolicyViolationCell hst cellX cellY cellW cellH (severity e) scale = (c, Inr ())" ..
    then show ?thesis using True by (simp add: drawCell_def logAiPromptLength_def b)
  next
    case False
    obtain m r1 pts where m:
      "editMotifs hst e cellX cellY cellW cellH rng scale collectPoints = (m, r1, pts)"
      by (metis prod.collapse)
    show ?thesis
    proof (cases "getHatchAngle e")
      case (Single a)
      from drawHatchLines_returns [OF nz]
      obtain h where "drawHatchLines hst cellX cellY cellW cellH a
          (spacing (getHatchParams (severity e))) (weight (getHatchParams (severity e)))
          (real_of_int (alpha (getHatchParams (severity e)))) scale (eraseRatioOf e) = (h, Inr ())"
        by (metis prod.collapse)
      then show ?thesis using False Single
        by (simp add: drawCell_def logAiPromptLength_def b m Let_def)
    next
      case (Cross as)
      then show ?thesis using False
        by (simp add: drawCell_def logAiPromptLength_def b m Let_def)
    qed
  qed
qed



lemma hasEvent_simp [simp]: "hasEvent (row, col, ev) = (ev \<noteq> None)"
  by (simp add: hasEvent_def)

lemma drawCells_visited:
  assumes sc: "scale \<noteq> 0"
  shows "snd (snd (snd (drawCells hst ps idx prepared margin cellW cellH rng scale)))
           = takeWhile hasEvent (visitPlan ps idx prepared)
         \<and> fst (snd (snd (drawCells hst ps idx prepared margin cellW cellH rng scale)))
           = (if list_all hasEvent (visitPlan ps idx prepared)
              then fst (snd (snd (drawCells hst ps idx prepared margin cellW cellH rng scale)))
              else Inl TypeError)"
proof (induction ps arbitrary: idx rng)
  case Nil
  then show ?case by simp
next
  case (Cons p ps)
  obtain row col where p: "p = (row, col)" by (cases p)
  show ?case
  proof (cases "eventAt prepared idx")
    case None
    then show ?thesis by (simp add: p drawCell_null)
  next
    case (Some e)
    from drawCell_returns [OF sc, of hst e "dadd margin (dmul (real col) cellW)"
        "dadd margin (dmul (real row) cellH)" cellW cellH rng True]
    obtain cmds rng1 pts where d: "drawCell hst (Some e) (dadd margin (dmul (real col) cellW))
        (dadd margin (dmul (real row) cellH)) cellW cellH rng scale True = (cmds, rng1, Inr pts)"
      by blast
    obtain c2 r2 res vis where r:
      "drawCells hst ps (Suc idx) prepared margin cellW cellH rng1 scale = (c2, r2, res, vis)"
      by (metis prod.collapse)
    from Cons.IH [of "Suc idx" rng1] r have
      v: "vis = takeWhile hasEvent (visitPlan ps (Suc idx) prepared)" and
      o: "res = (if list_all hasEvent (visitPlan ps (Suc idx) prepared) then res else Inl TypeError)"
      by simp_all
    show ?thesis
    proof (cases "list_all hasEvent (visitPlan ps (Suc idx) prepared)")
      case True
      then show ?thesis using v by (simp add: p Some d r Let_def)
    next
      case False
      with o have "res = Inl TypeError" by simp
      then show ?thesis using v False by (simp add: p Some d r Let_def)
    qed
  qed
qed

lemma row_cells:
  "map (\<lambda>colIdx. (row, cellColumn n row colIdx)) [0..<n]
     = map (Pair row) (if row mod 2 = 0 then [0..<n] else rev [0..<n])"
proof (cases "row mod 2 = 0")
  case True
  then show ?thesis by (simp add: cellColumn_def)
next
  case False
  have "map (\<lambda>colIdx. n - 1 - colIdx) [0..<n] = rev [0..<n]"
    by (rule nth_equalityI) (auto simp: rev_nth)
  then have "map (\<lambda>colIdx. (row, n - 1 - colIdx)) [0..<n] = map (Pair row) (rev [0..<n])"
    by (metis (no_types, lifting) map_map comp_def map_eq_conv)
  then show ?thesis using False by (simp add: cellColumn_def)
qed

lemma cellOrder_rows:
  "cellOrder n = concat (map (\<lambda>row. map (Pair row) (if row mod 2 = 0 then [0..<n] else rev [0..<n]))
                          [0..<n])"
  by (simp add: cellOrder_def row_cells)

lemma set_cellOrder: "set (cellOrder n) = {0..<n} \<times> {0..<n}"
  by (auto simp: cellOrder_rows split: if_splits)

lemma map_Pair_eq: "map (Pair x) as = map (Pair y) bs \<Longrightarrow> as \<noteq> [] \<Longrightarrow> x = y"
  by (cases as; cases bs) auto

lemma distinct_cellOrder: "distinct (cellOrder n)"
  unfolding cellOrder_rows
proof (rule distinct_concat)
  show "distinct (map (\<lambda>row. map (Pair row) (if row mod 2 = 0 then [0..<n] else rev [0..<n])) [0..<n])"
    unfolding distinct_map
  proof (intro conjI inj_onI)
    show "distinct [0..<n]" by simp
  next
    fix x y
    assume x: "x \<in> set [0..<n]" and y: "y \<in> set [0..<n]"
      and e: "map (Pair x) (if x mod 2 = 0 then [0..<n] else rev [0..<n])
              = map (Pair y) (if y mod 2 = 0 then [0..<n] else rev [0..<n])"
    from x have "(if x mod 2 = 0 then [0..<n] else rev [0..<n]) \<noteq> []" by auto
    with e show "x = y" by (rule map_Pair_eq)
  qed
next
  fix ys
  assume "ys \<in> set (map (\<lambda>row. map (Pair row) (if row mod 2 = 0 then [0..<n] else rev [0..<n])) [0..<n])"
  then show "distinct ys" by (auto simp: distinct_map inj_on_def)
next
  fix ys zs
  assume "ys \<in> set (map (\<lambda>row. map (Pair row) (if row mod 2 = 0 then [0..<n] else rev [0..<n])) [0..<n])"
    "zs \<in> set (map (\<lambda>row. map (Pair row) (if row mod 2 = 0 then [0..<n] else rev [0..<n])) [0..<n])"
    "ys \<noteq> zs"
  then show "set ys \<inter> set zs = {}" by (auto split: if_splits)
qed

lemma cellOrder_5:
  "cellOrder 5 = [(0,0),(0,1),(0,2),(0,3),(0,4), (1,4),(1,3),(1,2),(1,1),(1,0),
                  (2,0),(2,1),(2,2),(2,3),(2,4), (3,4),(3,3),(3,2),(3,1),(3,0),
                  (4,0),(4,1),(4,2),(4,3),(4,4)]"
  by code_simp



lemma prepared_one_snapshot:
  "preparedEvents [parseLine exSnapshot] LEWITT_CONFIG = [parseLine exSnapshot]"
  by (simp add: preparedEvents_def prepare_one_snapshot)

lemma plan_one_snapshot:
  "takeWhile hasEvent (visitPlan (cellOrder 5) 0 [e]) = [(0, 0, Some e)]
   \<and> \<not> list_all hasEvent (visitPlan (cellOrder 5) 0 [e])"
  by (simp add: cellOrder_5 eventAt_def)

text \<open>
  C8.  The claim is that the traversal visits all \<open>n * n\<close> positions, each given the
  next prepared event, \<open>null\<close> once they are exhausted.  The order of iteration is
  boustrophedon (\<open>cellOrder_rows\<close>, \<open>set_cellOrder\<close>, \<open>distinct_cellOrder\<close>,
  \<open>length_cellOrder\<close>), but \<open>drawCell\<close> throws on the first \<open>null\<close> event
  (\<open>drawCells_visited\<close>): for a log of one snapshot the grid size is 5, the iteration
  has 25 positions, and only the position \<open>(0, 0)\<close> is visited before the render
  stops with a \<open>TypeError\<close>.
\<close>

theorem traversal_stops_at_null:
  "calculateGridSize (length (preparedEvents [parseLine exSnapshot] LEWITT_CONFIG)) LEWITT_CONFIG = 5
   \<and> length (cellOrder 5) = 25
   \<and> cellsDrawn hst now [parseLine exSnapshot] canvasWidth canvasHeight LEWITT_CONFIG 1
       = [(0, 0, Some (parseLine exSnapshot))]
   \<and> fst (snd (drawLeWittGrid hst now [parseLine exSnapshot] canvasWidth canvasHeight
                  LEWITT_CONFIG 1 mode)) = Inl TypeError"
proof -
  let ?e = "parseLine exSnapshot"
  let ?m = "dmul canvasWidth (marginRatio LEWITT_CONFIG)"
  let ?w = "ddiv (dsub canvasWidth (dmul 2 ?m)) 5"
  let ?h = "ddiv (dsub canvasHeight (dmul 2 ?m)) 5"
  have s0: "seed LEWITT_CONFIG = 0" by (simp add: LEWITT_CONFIG_def)
  obtain c r res vis where d:
    "drawCells hst (cellOrder 5) 0 [?e] ?m ?w ?h now 1 = (c, r, res, vis)"
    by (metis prod.collapse)
  from drawCells_visited [of 1 hst "cellOrder 5" 0 "[?e]" ?m ?w ?h now] d plan_one_snapshot [of ?e]
  have vis: "vis = [(0, 0, Some ?e)]" and res: "res = Inl TypeError" by simp_all
  have a: "calculateGridSize (length (preparedEvents [?e] LEWITT_CONFIG)) LEWITT_CONFIG = 5"
    by (simp add: prepared_one_snapshot gridSize_one)
  have b: "length (cellOrder 5) = 25" by (simp add: length_cellOrder)
  have c: "cellsDrawn hst now [?e] canvasWidth canvasHeight LEWITT_CONFIG 1 = [(0, 0, Some ?e)]"
    by (simp add: cellsDrawn_def prepared_one_snapshot gridSize_one s0 Let_def d vis)
  have e: "fst (snd (drawLeWittGrid hst now [?e] canvasWidth canvasHeight LEWITT_CONFIG 1 mode))
             = Inl TypeError"
    by (simp add: drawLeWittGrid_def prepare_one_snapshot gridSize_one s0 Let_def d res)
  from a b c e show ?thesis by simp
qed


section \<open>The marking passes of the event preparer\<close>


lemma map_update_same:
  assumes "f e' = f (st ! i)"
  shows "map f (st[i := e']) = map f st"
proof (cases "i < length st")
  case True
  then show ?thesis using assms by (simp add: map_update list_update_same_conv)
next
  case False
  then have "length st \<le> i" by simp
  then show ?thesis by (simp add: list_update_beyond)
qed

lemma length_markSnapshots [simp]: "length (markSnapshots refs st) = length st"
  by (induction refs st rule: markSnapshots.induct) simp_all

lemma clearSnap_markSnapshots:
  "map clearSnap (markSnapshots refs st) = map clearSnap st"
  by (induction refs st rule: markSnapshots.induct)
     (simp_all add: map_update_same clearSnap_def)

lemma length_markAiPrompts [simp]: "length (markAiPrompts refs cur st) = length st"
  by (induction refs cur st rule: markAiPrompts.induct) (simp_all add: Let_def)

lemma clearAi_markAiPrompts:
  "map clearAi (markAiPrompts refs cur st) = map clearAi st"
  by (induction refs cur st rule: markAiPrompts.induct)
     (simp_all add: map_update_same clearAi_def Let_def)

lemma clearMarks_clearSnap: "clearMarks e = clearAi (clearSnap e)"
  by (simp add: clearMarks_def clearAi_def clearSnap_def)

lemma clearMarks_clearAi: "clearMarks e = clearSnap (clearAi e)"
  by (simp add: clearMarks_def clearAi_def clearSnap_def)

lemma map_clearMarks_of_clearSnap:
  "map clearSnap X = map clearSnap Y \<Longrightarrow> map clearMarks X = map clearMarks Y"
proof -
  assume a: "map clearSnap X = map clearSnap Y"
  have "map clearMarks X = map clearAi (map clearSnap X)"
    by (simp add: clearMarks_clearSnap)
  also have "\<dots> = map clearAi (map clearSnap Y)" using a by simp
  also have "\<dots> = map clearMarks Y" by (simp add: clearMarks_clearSnap)
  finally show ?thesis .
qed

lemma map_clearMarks_of_clearAi:
  "map clearAi X = map clearAi Y \<Longrightarrow> map clearMarks X = map clearMarks Y"
proof -
  assume a: "map clearAi X = map clearAi Y"
  have "map clearMarks X = map clearSnap (map clearAi X)"
    by (simp add: clearMarks_clearAi)
  also have "\<dots> = map clearSnap (map clearAi Y)" using a by simp
  also have "\<dots> = map clearMarks Y" by (simp add: clearMarks_clearAi)
  finally show ?thesis .
qed

lemma length_markEvents [simp]: "length (markEvents st) = length st"
  by (simp add: markEvents_def Let_def)

lemma clearMarks_markEvents: "map clearMarks (markEvents st) = map clearMarks st"
  unfolding markEvents_def Let_def
  using map_clearMarks_of_clearAi [OF clearAi_markAiPrompts]
        map_clearMarks_of_clearSnap [OF clearSnap_markSnapshots]
  by (metis)

text \<open>Reading a field through an equality of cleared stores.\<close>

lemma nth_of_map_eq:
  "map f X = map f Y \<Longrightarrow> i < length X \<Longrightarrow> f (X ! i) = f (Y ! i)"
  by (metis length_map nth_map)

lemma clearMarks_fields:
  assumes "clearMarks a = clearMarks b"
  shows "event a = event b" "ts a = ts b" "prompt a = prompt b" "to a = to b"
        "origin_mode a = origin_mode b" "severity a = severity b" "delta a = delta b"
proof -
  have "event (clearMarks a) = event (clearMarks b)" using assms by simp
  then show "event a = event b" by (simp add: clearMarks_def)
  have "ts (clearMarks a) = ts (clearMarks b)" using assms by simp
  then show "ts a = ts b" by (simp add: clearMarks_def)
  have "prompt (clearMarks a) = prompt (clearMarks b)" using assms by simp
  then show "prompt a = prompt b" by (simp add: clearMarks_def)
  have "to (clearMarks a) = to (clearMarks b)" using assms by simp
  then show "to a = to b" by (simp add: clearMarks_def)
  have "origin_mode (clearMarks a) = origin_mode (clearMarks b)" using assms by simp
  then show "origin_mode a = origin_mode b" by (simp add: clearMarks_def)
  have "severity (clearMarks a) = severity (clearMarks b)" using assms by simp
  then show "severity a = severity b" by (simp add: clearMarks_def)
  have "delta (clearMarks a) = delta (clearMarks b)" using assms by simp
  then show "delta a = delta b" by (simp add: clearMarks_def)
qed

lemma clearAi_hasSnapshotAfter:
  assumes "clearAi a = clearAi b"
  shows "hasSnapshotAfter a = hasSnapshotAfter b"
proof -
  have "hasSnapshotAfter (clearAi a) = hasSnapshotAfter (clearAi b)" using assms by simp
  then show ?thesis by (simp add: clearAi_def)
qed

lemma insort_key_cong:
  "f x = g x \<Longrightarrow> (\<And>y. y \<in> set ys \<Longrightarrow> f y = g y) \<Longrightarrow> insort_key f x ys = insort_key g x ys"
  by (induction ys) auto

lemma sort_key_cong:
  "(\<And>x. x \<in> set xs \<Longrightarrow> f x = g x) \<Longrightarrow> sort_key f xs = sort_key g xs"
proof (induction xs)
  case Nil
  then show ?case by simp
next
  case (Cons a xs)
  have "sort_key f xs = sort_key g xs" using Cons by simp
  moreover have "insort_key f a (sort_key g xs) = insort_key g a (sort_key g xs)"
    using Cons.prems by (intro insort_key_cong) simp_all
  ultimately show ?case by simp
qed

lemma sortedRefs_cong:
  assumes "map clearMarks X = map clearMarks Y"
  shows "sortedRefs X = sortedRefs Y"
proof -
  from assms have l: "length X = length Y" by (metis length_map)
  have "tsKey (X ! i) = tsKey (Y ! i)" if "i < length X" for i
    using clearMarks_fields(2) [OF nth_of_map_eq [OF assms that]] by (simp add: tsKey_def)
  then show ?thesis unfolding sortedRefs_def l [symmetric]
    by (intro sort_key_cong) simp
qed

lemma set_sortedRefs [simp]: "set (sortedRefs st) = {0..<length st}"
  by (simp add: sortedRefs_def)

lemma distinct_sortedRefs [simp]: "distinct (sortedRefs st)"
  by (simp add: sortedRefs_def)



lemma event_markSnapshots:
  "k < length st \<Longrightarrow> event (markSnapshots refs st ! k) = event (st ! k)"
  using clearMarks_fields(1)
          [OF nth_of_map_eq [OF map_clearMarks_of_clearSnap [OF clearSnap_markSnapshots]]]
  by simp

lemma markSnapshots_keeps:
  "k < length st \<Longrightarrow> hasSnapshotAfter (st ! k) = Some True
   \<Longrightarrow> hasSnapshotAfter (markSnapshots refs st ! k) = Some True"
proof (induction refs st rule: markSnapshots.induct)
  case (1 i j rest store)
  let ?st1 = "(if event (store ! i) = ''edit'' \<and> event (store ! j) = ''snapshot''
        then store[i := (store ! i)\<lparr>hasSnapshotAfter := Some True\<rparr>] else store)"
  have "hasSnapshotAfter (?st1 ! k) = Some True"
    using 1(2,3) by (cases "k = i") auto
  moreover have "k < length ?st1" using 1(2) by simp
  ultimately show ?case using 1(1) by simp
qed simp_all

lemma markSnapshots_fix: "snapMarked refs st \<Longrightarrow> markSnapshots refs st = st"
proof (induction refs st rule: markSnapshots.induct)
  case (1 i j rest store)
  show ?case
  proof (cases "event (store ! i) = ''edit'' \<and> event (store ! j) = ''snapshot''")
    case True
    with 1(2) have "hasSnapshotAfter (store ! i) = Some True" by simp
    then have "(store ! i)\<lparr>hasSnapshotAfter := Some True\<rparr> = store ! i"
      by (metis event.surjective event.update_convs(4))
    then have "store[i := (store ! i)\<lparr>hasSnapshotAfter := Some True\<rparr>] = store" by simp
    with True 1 show ?thesis by simp
  next
    case False
    with 1 show ?thesis by auto
  qed
qed simp_all

lemma markSnapshots_post:
  "(\<And>i. i \<in> set refs \<Longrightarrow> i < length st) \<Longrightarrow> snapMarked refs (markSnapshots refs st)"
proof (induction refs st rule: markSnapshots.induct)
  case (1 i j rest store)
  let ?c = "event (store ! i) = ''edit'' \<and> event (store ! j) = ''snapshot''"
  let ?st1 = "(if ?c then store[i := (store ! i)\<lparr>hasSnapshotAfter := Some True\<rparr>] else store)"
  let ?R = "markSnapshots (j # rest) ?st1"
  have i: "i < length store" and j: "j < length store" using 1(2) by simp_all
  have l1: "length ?st1 = length store" by simp
  have ih: "snapMarked (j # rest) ?R"
    using 1(1) [of ] 1(2) l1 by (metis list.set_intros(2))
  have ev1: "event (?st1 ! k) = event (store ! k)" if "k < length store" for k
    using that by (cases "k = i") auto
  have evR: "event (?R ! k) = event (store ! k)" if "k < length store" for k
    using event_markSnapshots [of k ?st1 "j # rest"] ev1 [OF that] that l1 by simp
  have "hasSnapshotAfter (?R ! i) = Some True" if c: ?c
  proof -
    have "hasSnapshotAfter (?st1 ! i) = Some True" using c i by simp
    then show ?thesis using markSnapshots_keeps [of i ?st1 "j # rest"] i l1 by simp
  qed
  then have "event (?R ! i) = ''edit'' \<and> event (?R ! j) = ''snapshot''
               \<longrightarrow> hasSnapshotAfter (?R ! i) = Some True"
    using evR [OF i] evR [OF j] by simp
  with ih have "snapMarked (i # j # rest) ?R" by simp
  then show ?case by simp
qed simp_all

lemma snapMarked_cong:
  "map clearAi X = map clearAi Y \<Longrightarrow> (\<And>i. i \<in> set refs \<Longrightarrow> i < length X)
   \<Longrightarrow> snapMarked refs X = snapMarked refs Y"
proof (induction refs X rule: snapMarked.induct)
  case (1 i j rest store)
  have i: "i < length store" and j: "j < length store" using 1(3) by simp_all
  have ci: "clearAi (store ! i) = clearAi (Y ! i)" using nth_of_map_eq [OF 1(2) i] .
  have cj: "clearAi (store ! j) = clearAi (Y ! j)" using nth_of_map_eq [OF 1(2) j] .
  have mi: "clearMarks (store ! i) = clearMarks (Y ! i)"
    using nth_of_map_eq [OF map_clearMarks_of_clearAi [OF 1(2)] i] .
  have mj: "clearMarks (store ! j) = clearMarks (Y ! j)"
    using nth_of_map_eq [OF map_clearMarks_of_clearAi [OF 1(2)] j] .
  have ih: "snapMarked (j # rest) store = snapMarked (j # rest) Y"
    using 1(1) [OF 1(2)] 1(3) by (metis list.set_intros(2))
  show ?case
    using ih clearMarks_fields(1) [OF mi] clearMarks_fields(1) [OF mj]
          clearAi_hasSnapshotAfter [OF ci]
    by simp
qed simp_all



lemma markAiPrompts_frame:
  "k \<notin> set refs \<Longrightarrow> markAiPrompts refs cur st ! k = st ! k"
  by (induction refs cur st rule: markAiPrompts.induct) (auto simp: Let_def)

lemma markAiPrompts_fix: "aiMarked refs cur st \<Longrightarrow> markAiPrompts refs cur st = st"
proof (induction refs cur st rule: markAiPrompts.induct)
  case (1 cur store)
  then show ?case by simp
next
  case (2 i rest cur store)
  let ?evt = "store ! i"
  show ?case
  proof (cases "event ?evt = ''ai_prompt'' \<and> truthyString (prompt ?evt)")
    case True
    with 2 show ?thesis by (auto simp: Let_def)
  next
    case b1: False
    show ?thesis
    proof (cases "event ?evt = ''mode_change'' \<and> to ?evt = Some ''human''")
      case True
      with b1 2 show ?thesis by (auto simp: Let_def)
    next
      case b2: False
      show ?thesis
      proof (cases "event ?evt = ''edit'' \<and> origin_mode ?evt = Some ''ai'' \<and> cur > 0")
        case True
        with b1 b2 2(5) have a: "aiPromptLength ?evt = Some cur" and m: "aiMarked rest cur store"
          by (auto simp: Let_def)
        from a have "?evt\<lparr>aiPromptLength := Some cur\<rparr> = ?evt"
          by (metis event.surjective event.update_convs(5))
        then have "store[i := ?evt\<lparr>aiPromptLength := Some cur\<rparr>] = store" by simp
        with True b1 b2 2(3) m show ?thesis by (auto simp: Let_def)
      next
        case False
        with b1 b2 2 show ?thesis by (auto simp: Let_def)
      qed
    qed
  qed
qed

lemma ctl_markAiPrompts:
  assumes "k < length st"
  shows "event (markAiPrompts refs cur st ! k) = event (st ! k)"
    and "prompt (markAiPrompts refs cur st ! k) = prompt (st ! k)"
    and "to (markAiPrompts refs cur st ! k) = to (st ! k)"
    and "origin_mode (markAiPrompts refs cur st ! k) = origin_mode (st ! k)"
proof -
  have c: "clearMarks (markAiPrompts refs cur st ! k) = clearMarks (st ! k)"
    using nth_of_map_eq [OF map_clearMarks_of_clearAi [OF clearAi_markAiPrompts]] assms
    by simp
  show "event (markAiPrompts refs cur st ! k) = event (st ! k)"
    by (rule clearMarks_fields(1) [OF c])
  show "prompt (markAiPrompts refs cur st ! k) = prompt (st ! k)"
    by (rule clearMarks_fields(3) [OF c])
  show "to (markAiPrompts refs cur st ! k) = to (st ! k)"
    by (rule clearMarks_fields(4) [OF c])
  show "origin_mode (markAiPrompts refs cur st ! k) = origin_mode (st ! k)"
    by (rule clearMarks_fields(5) [OF c])
qed

lemma markAiPrompts_post:
  "distinct refs \<Longrightarrow> (\<And>i. i \<in> set refs \<Longrightarrow> i < length st)
   \<Longrightarrow> aiMarked refs cur (markAiPrompts refs cur st)"
proof (induction refs cur st rule: markAiPrompts.induct)
  case (1 cur store)
  then show ?case by simp
next
  case (2 i rest cur store)
  let ?evt = "store ! i"
  have i: "i < length store" using 2(6) by simp
  have d: "distinct rest" and ni: "i \<notin> set rest" using 2(5) by simp_all
  have r: "\<And>k. k \<in> set rest \<Longrightarrow> k < length store" using 2(6) by simp
  show ?case
  proof (cases "event ?evt = ''ai_prompt'' \<and> truthyString (prompt ?evt)")
    case True
    let ?R = "markAiPrompts rest (length (the (prompt ?evt))) store"
    have R: "markAiPrompts (i # rest) cur store = ?R" using True by (auto simp: Let_def)
    have ih: "aiMarked rest (length (the (prompt ?evt))) ?R"
      using 2(1) [OF refl True d r] .
    have "aiMarked (i # rest) cur ?R"
      using True ih ctl_markAiPrompts [OF i, of rest "length (the (prompt ?evt))"]
      by (auto simp: Let_def)
    then show ?thesis using R by simp
  next
    case b1: False
    show ?thesis
    proof (cases "event ?evt = ''mode_change'' \<and> to ?evt = Some ''human''")
      case True
      let ?R = "markAiPrompts rest 0 store"
      have R: "markAiPrompts (i # rest) cur store = ?R" using True b1 by (auto simp: Let_def)
      have ih: "aiMarked rest 0 ?R" using 2(2) [OF refl b1 True d r] .
      have "aiMarked (i # rest) cur ?R"
        using True b1 ih ctl_markAiPrompts [OF i, of rest 0]
        by (auto simp: Let_def)
      then show ?thesis using R by simp
    next
      case b2: False
      show ?thesis
      proof (cases "event ?evt = ''edit'' \<and> origin_mode ?evt = Some ''ai'' \<and> cur > 0")
        case True
        let ?st1 = "store[i := ?evt\<lparr>aiPromptLength := Some cur\<rparr>]"
        let ?R = "markAiPrompts rest cur ?st1"
        have R: "markAiPrompts (i # rest) cur store = ?R"
          using True b1 b2 by (auto simp: Let_def)
        have r1: "\<And>k. k \<in> set rest \<Longrightarrow> k < length ?st1" using r by simp
        have ih: "aiMarked rest cur ?R" using 2(3) [OF refl b1 b2 True d r1] .
        have i1: "i < length ?st1" using i by simp
        have c1: "event (?st1 ! i) = event ?evt" "prompt (?st1 ! i) = prompt ?evt"
          "to (?st1 ! i) = to ?evt" "origin_mode (?st1 ! i) = origin_mode ?evt"
          using i by simp_all
        have "?R ! i = ?st1 ! i" using ni by (rule markAiPrompts_frame)
        then have a: "aiPromptLength (?R ! i) = Some cur" using i by simp
        have "aiMarked (i # rest) cur ?R"
          using True b1 b2 ih a ctl_markAiPrompts [OF i1, of rest cur] c1
          by (auto simp: Let_def)
        then show ?thesis using R by simp
      next
        case b3: False
        let ?R = "markAiPrompts rest cur store"
        have R: "markAiPrompts (i # rest) cur store = ?R"
          using b1 b2 b3 by (auto simp: Let_def)
        have ih: "aiMarked rest cur ?R" using 2(4) [OF refl b1 b2 b3 d r] .
        have "aiMarked (i # rest) cur ?R"
          using b1 b2 b3 ih ctl_markAiPrompts [OF i, of rest cur]
          by (auto simp: Let_def)
        then show ?thesis using R by simp
      qed
    qed
  qed
qed

lemma markEvents_idem: "markEvents (markEvents st) = markEvents st"
proof -
  let ?S = "sortedRefs st"
  let ?R1 = "markSnapshots ?S st"
  let ?F = "markAiPrompts ?S 0 ?R1"
  have F: "markEvents st = ?F" by (simp add: markEvents_def Let_def)
  have rng: "\<And>i. i \<in> set ?S \<Longrightarrow> i < length st" by simp
  have S': "sortedRefs ?F = ?S"
    using sortedRefs_cong [OF clearMarks_markEvents [of st]] F by simp
  have "snapMarked ?S ?R1" using rng by (rule markSnapshots_post)
  moreover have "snapMarked ?S ?F = snapMarked ?S ?R1"
    by (rule snapMarked_cong [OF clearAi_markAiPrompts]) simp
  ultimately have "snapMarked ?S ?F" by simp
  then have 1: "markSnapshots ?S ?F = ?F" by (rule markSnapshots_fix)
  have "aiMarked ?S 0 ?F"
    by (rule markAiPrompts_post) simp_all
  then have 2: "markAiPrompts ?S 0 ?F = ?F" by (rule markAiPrompts_fix)
  have "markEvents ?F = markAiPrompts ?S 0 (markSnapshots ?S ?F)"
    unfolding markEvents_def Let_def S' ..
  then show ?thesis using 1 2 F by simp
qed


section \<open>Effect of the preparation on the events (C10)\<close>


lemma snd_prepareEvents: "snd (prepareEvents store cfg) = markEvents store"
  by (simp add: prepareEvents_def Let_def)


text \<open>
  C10, as amended.  \<open>prepareEvents\<close> keeps the caller's array (its length and order) and
  every field of every event other than \<open>hasSnapshotAfter\<close> and \<open>aiPromptLength\<close>; the
  two annotations are assigned on the caller's event objects and stay there after the
  pass, and a further pass (under any configuration) leaves the objects as the first
  one left them.
\<close>

theorem prepareEvents_frame:
  "length (snd (prepareEvents store cfg)) = length store
   \<and> map clearMarks (snd (prepareEvents store cfg)) = map clearMarks store
   \<and> snd (prepareEvents (snd (prepareEvents store cfg)) cfg') = snd (prepareEvents store cfg)"
  by (simp add: snd_prepareEvents clearMarks_markEvents markEvents_idem)

lemma parse_edit_snapshot:
  "snd (prepareEvents (parseJsonl [exAiEdit, exSnapshot]) LEWITT_CONFIG)
     = [(parseLine exAiEdit)\<lparr>hasSnapshotAfter := Some True\<rparr>, parseLine exSnapshot]"
  by (simp add: snd_prepareEvents markEvents_def sortedRefs_def parseJsonl_def Let_def
        tsKey_def exAiEdit_def exSnapshot_def truthyString_def)

text \<open>
  C10, as stated, fails: the events of a log of an edit followed by a snapshot are not
  left unchanged by the preparation; the edit, created without \<open>hasSnapshotAfter\<close>,
  carries \<open>hasSnapshotAfter = true\<close> after the pass.
\<close>

theorem prepareEvents_mutates_input:
  "hasSnapshotAfter (parseJsonl [exAiEdit, exSnapshot] ! 0) = None
   \<and> hasSnapshotAfter
        (snd (prepareEvents (parseJsonl [exAiEdit, exSnapshot]) LEWITT_CONFIG) ! 0) = Some True
   \<and> snd (prepareEvents (parseJsonl [exAiEdit, exSnapshot]) LEWITT_CONFIG)
        \<noteq> parseJsonl [exAiEdit, exSnapshot]"
proof -
  have a: "hasSnapshotAfter (parseJsonl [exAiEdit, exSnapshot] ! 0) = None"
    by (simp add: parseJsonl_def)
  have b: "hasSnapshotAfter
        (snd (prepareEvents (parseJsonl [exAiEdit, exSnapshot]) LEWITT_CONFIG) ! 0) = Some True"
    by (simp add: parse_edit_snapshot)
  from a b have "snd (prepareEvents (parseJsonl [exAiEdit, exSnapshot]) LEWITT_CONFIG)
        \<noteq> parseJsonl [exAiEdit, exSnapshot]"
    by (metis option.distinct(1))
  with a b show ?thesis by simp
qed


section \<open>Attribution of the prompt length (C9)\<close>


lemma markAiPrompts_no_prompt:
  "(\<And>i. i \<in> set refs \<Longrightarrow> prompt (st ! i) = None) \<Longrightarrow> markAiPrompts refs 0 st = st"
  by (induction refs) (simp_all add: Let_def truthyString_def)

lemma clearSnap_aiPromptLength:
  assumes "clearSnap a = clearSnap b"
  shows "aiPromptLength a = aiPromptLength b"
proof -
  have "aiPromptLength (clearSnap a) = aiPromptLength (clearSnap b)" using assms by simp
  then show ?thesis by (simp add: clearSnap_def)
qed

lemma normalized_never_attributed:
  "map aiPromptLength (snd (prepareEvents (parseJsonl raws) cfg))
     = replicate (length raws) None"
proof -
  let ?st = "parseJsonl raws"
  let ?S = "sortedRefs ?st"
  let ?R1 = "markSnapshots ?S ?st"
  have len: "length ?st = length raws" by (simp add: parseJsonl_def)
  have c: "clearMarks (?R1 ! i) = clearMarks (?st ! i)" if "i < length ?st" for i
    using nth_of_map_eq [OF map_clearMarks_of_clearSnap [OF clearSnap_markSnapshots]] that
    by simp
  have "prompt (?R1 ! i) = None" if "i \<in> set ?S" for i
  proof -
    from that have i: "i < length ?st" by simp
    have "prompt (?R1 ! i) = prompt (?st ! i)" by (rule clearMarks_fields(3) [OF c [OF i]])
    also have "\<dots> = None" using i by (simp add: parseJsonl_def)
    finally show ?thesis .
  qed
  then have "markAiPrompts ?S 0 ?R1 = ?R1" by (rule markAiPrompts_no_prompt)
  then have m: "markEvents ?st = ?R1" by (simp add: markEvents_def Let_def)
  have "aiPromptLength (?R1 ! i) = None" if i: "i < length ?st" for i
  proof -
    have "clearSnap (?R1 ! i) = clearSnap (?st ! i)"
      using nth_of_map_eq [OF clearSnap_markSnapshots] i by simp
    then have "aiPromptLength (?R1 ! i) = aiPromptLength (?st ! i)"
      by (rule clearSnap_aiPromptLength)
    also have "\<dots> = None" using i by (simp add: parseJsonl_def)
    finally show ?thesis .
  qed
  then have "map aiPromptLength ?R1 = replicate (length raws) None"
    using len by (intro nth_equalityI) simp_all
  then show ?thesis by (simp add: snd_prepareEvents m)
qed

text \<open>
  C9.  The claim is that an AI edit following an \<open>ai_prompt\<close> with a nonempty prompt
  receives that prompt's length as \<open>aiPromptLength\<close>, also for events produced by the
  normalizer.  The second loop of \<open>prepareEvents\<close> reads \<open>evt.prompt\<close> and \<open>evt.to\<close>,
  but the object that \<open>normalizeEvent\<close> builds has neither key (the raw record is kept
  under \<open>raw\<close>): for the log of a prompt \<open>hello\<close> followed by an AI edit, no event
  receives an \<open>aiPromptLength\<close>, where the claim says 5 for the edit.  On an event
  object that does carry the \<open>prompt\<close> property the loop assigns 5, as claimed.
  (\<open>normalized_never_attributed\<close>: no event from the normalizer ever receives one.)
\<close>

theorem prompt_length_not_attributed:
  "map event (parseJsonl [exPrompt, exAiEdit]) = [''ai_prompt'', ''edit'']
   \<and> map origin_mode (parseJsonl [exPrompt, exAiEdit]) = [None, Some ''ai'']
   \<and> raw_prompt exPrompt = Some ''hello''
   \<and> map prompt (parseJsonl [exPrompt, exAiEdit]) = [None, None]
   \<and> map aiPromptLength
        (snd (prepareEvents (parseJsonl [exPrompt, exAiEdit]) LEWITT_CONFIG)) = [None, None]
   \<and> map aiPromptLength
        (snd (prepareEvents [(parseLine exPrompt)\<lparr>prompt := raw_prompt exPrompt\<rparr>,
                             parseLine exAiEdit] LEWITT_CONFIG)) = [None, Some 5]"
proof -
  have a: "map aiPromptLength
        (snd (prepareEvents (parseJsonl [exPrompt, exAiEdit]) LEWITT_CONFIG)) = [None, None]"
    using normalized_never_attributed [of "[exPrompt, exAiEdit]" LEWITT_CONFIG]
    by (simp add: numeral_2_eq_2)
  have b: "map aiPromptLength
        (snd (prepareEvents [(parseLine exPrompt)\<lparr>prompt := raw_prompt exPrompt\<rparr>,
                             parseLine exAiEdit] LEWITT_CONFIG)) = [None, Some 5]"
    by (simp add: snd_prepareEvents markEvents_def sortedRefs_def Let_def
          tsKey_def exAiEdit_def exPrompt_def truthyString_def)
  have c: "map event (parseJsonl [exPrompt, exAiEdit]) = [''ai_prompt'', ''edit'']
   \<and> map origin_mode (parseJsonl [exPrompt, exAiEdit]) = [None, Some ''ai'']
   \<and> raw_prompt exPrompt = Some ''hello''
   \<and> map prompt (parseJsonl [exPrompt, exAiEdit]) = [None, None]"
    by (simp add: parseJsonl_def exAiEdit_def exPrompt_def)
  from a b c show ?thesis by simp
qed


section \<open>Determinism of the render (C2)\<close>






end
